theory Spec2Isabelle
  imports Main
begin

section \<open>Documents and Python's built-in operations on them\<close>

text \<open>
  The module \<^verbatim>\<open>app/params.py\<close> works on in-memory JSON-like trees. A dictionary is an
  association list that is read through \<open>map_of\<close>; its size is the number of distinct
  keys. Numbers are Python's unbounded integers (floating point values are outside this
  model).
\<close>

datatype json =
    JNull
  | JBool bool
  | JInt int
  | JStr string
  | JArr "json list"
  | JObj "(string \<times> json) list"

datatype py_error =
    PropertiesError string
  | KeyError json
  | IndexError
  | TypeError

text \<open>\<^verbatim>\<open>x[key]\<close> with a string key.\<close>

fun getitem_key :: "json \<Rightarrow> string \<Rightarrow> py_error + json" where
  "getitem_key (JObj kvs) k =
     (case map_of kvs k of Some v \<Rightarrow> Inr v | None \<Rightarrow> Inl (KeyError (JStr k)))"
| "getitem_key _ k = Inl TypeError"

text \<open>
  \<^verbatim>\<open>x[index]\<close> with an integer index: a list counts a negative index from its end and
  raises IndexError out of range; a string yields the one-character string; a dictionary
  (whose keys are strings) has no such key.
\<close>

definition list_getitem :: "'a list \<Rightarrow> int \<Rightarrow> py_error + 'a" where
  "list_getitem xs i =
     (let n = int (length xs); j = (if i < 0 then i + n else i)
      in if 0 \<le> j \<and> j < n then Inr (xs ! nat j) else Inl IndexError)"

fun getitem_index :: "json \<Rightarrow> int \<Rightarrow> py_error + json" where
  "getitem_index (JArr xs) i = list_getitem xs i"
| "getitem_index (JStr s) i =
     (case list_getitem s i of Inl e \<Rightarrow> Inl e | Inr c \<Rightarrow> Inr (JStr [c]))"
| "getitem_index (JObj kvs) i = Inl (KeyError (JInt i))"
| "getitem_index _ i = Inl TypeError"

text \<open>\<^verbatim>\<open>len(x)\<close>.\<close>

fun py_len :: "json \<Rightarrow> py_error + nat" where
  "py_len (JObj kvs) = Inr (length (remdups (map fst kvs)))"
| "py_len (JArr xs) = Inr (length xs)"
| "py_len (JStr s) = Inr (length s)"
| "py_len _ = Inl TypeError"

text \<open>
  \<^verbatim>\<open>map(f, x)\<close> asks \<open>x\<close> for an iterator at once (a TypeError when \<open>x\<close> is not
  iterable) and applies \<open>f\<close> at each \<^verbatim>\<open>next\<close>. The iterator holds the sequence it walks
  and its position; a \<^verbatim>\<open>next\<close> moves the position and writes nothing else.
\<close>

record 'a map_object =
  mo_fun :: "json \<Rightarrow> 'a"
  mo_seq :: "json list"
  mo_pos :: nat

fun py_elements :: "json \<Rightarrow> py_error + json list" where
  "py_elements (JArr xs) = Inr xs"
| "py_elements (JObj kvs) = Inr (map JStr (remdups (map fst kvs)))"
| "py_elements (JStr s) = Inr (map (\<lambda>c. JStr [c]) s)"
| "py_elements _ = Inl TypeError"

definition py_map :: "(json \<Rightarrow> 'a) \<Rightarrow> json \<Rightarrow> py_error + 'a map_object" where
  "py_map f x =
     (case py_elements x of
        Inl e \<Rightarrow> Inl e
      | Inr xs \<Rightarrow> Inr \<lparr>mo_fun = f, mo_seq = xs, mo_pos = 0\<rparr>)"

text \<open>\<^verbatim>\<open>next(it)\<close>: \<open>None\<close> stands for StopIteration.\<close>

definition py_next :: "'a map_object \<Rightarrow> 'a option \<times> 'a map_object" where
  "py_next it =
     (if mo_pos it < length (mo_seq it)
      then (Some (mo_fun it (mo_seq it ! mo_pos it)), it\<lparr>mo_pos := mo_pos it + 1\<rparr>)
      else (None, it))"

text \<open>Calling \<^verbatim>\<open>next\<close> \<open>n\<close> times and dropping what it yields.\<close>

fun advance :: "nat \<Rightarrow> 'a map_object \<Rightarrow> 'a map_object" where
  "advance 0 it = it"
| "advance (Suc n) it = advance n (snd (py_next it))"

text \<open>A \<^verbatim>\<open>for\<close> loop over the iterator, collecting what it yields until StopIteration.\<close>

function consume :: "'a map_object \<Rightarrow> 'a list" where
  "consume it =
     (case py_next it of
        (None, _) \<Rightarrow> []
      | (Some x, it') \<Rightarrow> x # consume it')"
  by pat_completeness auto
termination
  by (relation "measure (\<lambda>it. length (mo_seq it) - mo_pos it)")
     (auto simp: py_next_def split: if_splits)

declare consume.simps [simp del]

section \<open>The validator's error and the path rendering of \<^verbatim>\<open>_parse_json\<close>\<close>

text \<open>
  A step of \<^verbatim>\<open>error.path\<close> is an object key (a \<^verbatim>\<open>str\<close>) or an array index (an \<^verbatim>\<open>int\<close>).
\<close>

datatype path_elem = Key string | Index int

record validation_error =
  message :: string
  path :: "path_elem list"

text \<open>\<^verbatim>\<open>str(n)\<close> for an integer: decimal digits, with a minus sign below zero.\<close>

definition digit_char :: "nat \<Rightarrow> char" where
  "digit_char d = ''0123456789'' ! d"

function str_nat :: "nat \<Rightarrow> string" where
  "str_nat n = (if n < 10 then [digit_char n] else str_nat (n div 10) @ [digit_char (n mod 10)])"
  by pat_completeness auto
termination
  by (relation "measure id") auto

declare str_nat.simps [simp del]

definition str_int :: "int \<Rightarrow> string" where
  "str_int i = (if i < 0 then CHR ''-'' # str_nat (nat (- i)) else str_nat (nat i))"

text \<open>\<^verbatim>\<open>sep.join(xs)\<close>.\<close>

fun join :: "string \<Rightarrow> string list \<Rightarrow> string" where
  "join sep [] = []"
| "join sep [x] = x"
| "join sep (x # y # ys) = x @ sep @ join sep (y # ys)"

text \<open>
  \<^verbatim>\<open>lambda elem: f'"{elem}"' if isinstance(elem, str) else str(elem)\<close>
\<close>

fun elem_str :: "path_elem \<Rightarrow> string" where
  "elem_str (Key k) = [CHR 0x22] @ k @ [CHR 0x22]"
| "elem_str (Index i) = str_int i"

text \<open>\<^verbatim>\<open>f'[{"][".join(path_strs)}]'\<close>\<close>

definition path_str :: "path_elem list \<Rightarrow> string" where
  "path_str p = ''['' @ join '']['' (map elem_str p) @ '']''"

text \<open>
  \<^verbatim>\<open>_parse_json(data, schema)\<close>. The call \<^verbatim>\<open>jsonschema.validate(data, schema)\<close> goes to a
  library outside the module, so it is the parameter \<open>validate\<close>: \<open>None\<close> when the
  library returns, \<open>Some error\<close> when it raises that ValidationError.
\<close>

definition parse_json ::
  "(json \<Rightarrow> 'schema \<Rightarrow> validation_error option) \<Rightarrow> json \<Rightarrow> 'schema \<Rightarrow> py_error + json" where
  "parse_json validate data schema =
     (case validate data schema of
        None \<Rightarrow> Inr data
      | Some error \<Rightarrow>
          Inl (PropertiesError (message error @ '' (path: '' @ path_str (path error) @ '')'')))"

section \<open>Schemas and the validator\<close>

text \<open>
  A schema is the dictionary of the source, keyword by keyword and in the source's order.
  Only the keywords that the three schemas of the module use are modelled; \<^verbatim>\<open>enum\<close> lists
  strings, as its one use does.
\<close>

datatype jtype = T_object | T_array | T_string | T_integer

datatype keyword =
    K_type jtype
  | K_properties "(string \<times> keyword list) list"
  | K_required "string list"
  | K_additionalProperties bool
  | K_minimum int
  | K_enum "string list"
  | K_items "keyword list"
  | K_minItems nat

type_synonym schema = "keyword list"

text \<open>The six kinds of schema violation, each with what the rule was checking.\<close>

datatype violation =
    Not_of_type json jtype
  | Required_property string
  | Additional_properties "string list"
  | Less_than_minimum json int
  | Not_one_of json "string list"
  | Too_short json nat

type_synonym schema_error = "violation \<times> path_elem list"

text \<open>
  Modelled from the spec: the validator's type test (part of \<^verbatim>\<open>jsonschema\<close>, which is
  not in the module's source). A Boolean is not an integer.
\<close>

fun is_type :: "json \<Rightarrow> jtype \<Rightarrow> bool" where
  "is_type (JObj kvs) T_object = True"
| "is_type (JArr xs) T_array = True"
| "is_type (JStr s) T_string = True"
| "is_type (JInt i) T_integer = True"
| "is_type _ _ = False"

text \<open>
  Modelled from the spec: the properties that a schema declares,
  \<^verbatim>\<open>schema.get("properties", {})\<close> in the library.
\<close>

fun schema_properties :: "schema \<Rightarrow> (string \<times> schema) list" where
  "schema_properties [] = []"
| "schema_properties (K_properties props # ks) = props"
| "schema_properties (k # ks) = schema_properties ks"

text \<open>
  Modelled from the spec: the keys of an object that its schema does not declare under
  \<^verbatim>\<open>properties\<close> (closed-object semantics).
\<close>

definition find_additional_properties :: "(string \<times> json) list \<Rightarrow> schema \<Rightarrow> string list" where
  "find_additional_properties kvs schema =
     filter (\<lambda>k. k \<notin> fst ` set (schema_properties schema)) (remdups (map fst kvs))"

text \<open>
  Modelled from the spec: the structural path. An error found below a key or an index
  gets that step in front of its path.
\<close>

definition descend :: "path_elem \<Rightarrow> schema_error list \<Rightarrow> schema_error list" where
  "descend step errors = map (\<lambda>(v, p). (v, step # p)) errors"

text \<open>
  Modelled from the spec: the structural validator behind \<^verbatim>\<open>jsonschema.validate\<close>, a
  library that is not part of the module's source. After section 4.1 of the specification
  it checks the type of every node, the presence of all required keys, the absence of
  undeclared keys, numeric lower bounds, enumeration membership and minimum array
  lengths, recursively through nested objects and array items; each rule applies only to
  a node of the type it speaks about. \<open>iter_errors\<close> lists the violations in evaluation
  order (the keywords in the order of the schema, the properties in the order declared,
  the items by index), each with its path from the node checked.
\<close>

fun iter_errors :: "schema \<Rightarrow> json \<Rightarrow> schema_error list"
  and keyword_errors :: "schema \<Rightarrow> keyword \<Rightarrow> json \<Rightarrow> schema_error list" where
  "iter_errors schema inst = concat (map (\<lambda>kw. keyword_errors schema kw inst) schema)"
| "keyword_errors schema (K_type t) inst =
     (if is_type inst t then [] else [(Not_of_type inst t, [])])"
| "keyword_errors schema (K_properties props) inst =
     (case inst of
        JObj kvs \<Rightarrow>
          concat (map (\<lambda>(property, subschema).
                    case map_of kvs property of
                      Some v \<Rightarrow> descend (Key property) (iter_errors subschema v)
                    | None \<Rightarrow> []) props)
      | _ \<Rightarrow> [])"
| "keyword_errors schema (K_required required) inst =
     (case inst of
        JObj kvs \<Rightarrow>
          map (\<lambda>property. (Required_property property, []))
            (filter (\<lambda>property. map_of kvs property = None) required)
      | _ \<Rightarrow> [])"
| "keyword_errors schema (K_additionalProperties allowed) inst =
     (case inst of
        JObj kvs \<Rightarrow>
          (let extras = find_additional_properties kvs schema
           in if \<not> allowed \<and> extras \<noteq> [] then [(Additional_properties extras, [])] else [])
      | _ \<Rightarrow> [])"
| "keyword_errors schema (K_minimum minimum) inst =
     (case inst of
        JInt i \<Rightarrow> if i < minimum then [(Less_than_minimum inst minimum, [])] else []
      | _ \<Rightarrow> [])"
| "keyword_errors schema (K_enum enums) inst =
     (if inst \<in> JStr ` set enums then [] else [(Not_one_of inst enums, [])])"
| "keyword_errors schema (K_items items) inst =
     (case inst of
        JArr xs \<Rightarrow>
          concat (map (\<lambda>index. descend (Index (int index)) (iter_errors items (xs ! index)))
                    [0 ..< length xs])
      | _ \<Rightarrow> [])"
| "keyword_errors schema (K_minItems mI) inst =
     (case inst of
        JArr xs \<Rightarrow> if length xs < mI then [(Too_short inst mI, [])] else []
      | _ \<Rightarrow> [])"

declare iter_errors.simps [simp del]

text \<open>
  Modelled from the spec: \<^verbatim>\<open>jsonschema.validate\<close> itself. It returns when there is no
  violation and otherwise raises one error, for the first violation in evaluation order.
  The wording of the library's messages is fixed neither by the module nor by the
  specification, so it is the parameter \<open>msg\<close>.
\<close>

definition jsonschema_validate ::
  "(violation \<Rightarrow> string) \<Rightarrow> json \<Rightarrow> schema \<Rightarrow> validation_error option" where
  "jsonschema_validate msg inst schema =
     (case iter_errors schema inst of
        [] \<Rightarrow> None
      | (v, p) # _ \<Rightarrow> Some \<lparr>message = msg v, path = p\<rparr>)"

section \<open>The views\<close>

type_synonym validator = "json \<Rightarrow> schema \<Rightarrow> validation_error option"

subsection \<open>Properties\<close>

definition props_schema :: schema where
  "props_schema =
     [K_type T_object,
      K_properties
        [(''rows'',
            [K_type T_object,
             K_properties
               [(''height'', [K_type T_integer, K_minimum 1]),
                (''spacing'', [K_type T_integer, K_minimum 1]),
                (''critical_value_size'', [K_type T_integer, K_minimum 1])],
             K_required [''height'', ''spacing''],
             K_additionalProperties False]),
         (''font'',
            [K_type T_object,
             K_properties [(''size'', [K_type T_integer, K_minimum 1])],
             K_required [''size''],
             K_additionalProperties False]),
         (''mode'', [K_type T_string, K_enum [''columns'', ''rows'']])],
      K_required [''rows'', ''font'', ''mode''],
      K_additionalProperties False]"

datatype Properties = Properties (props_data: json)

definition Properties_init :: "validator \<Rightarrow> json \<Rightarrow> py_error + Properties" where
  "Properties_init validate data =
     (case parse_json validate data props_schema of
        Inl e \<Rightarrow> Inl e
      | Inr d \<Rightarrow> Inr (Properties d))"

definition row_height :: "Properties \<Rightarrow> py_error + json" where
  "row_height self =
     (case getitem_key (props_data self) ''rows'' of
        Inl e \<Rightarrow> Inl e
      | Inr rows \<Rightarrow> getitem_key rows ''height'')"

definition rows_spacing :: "Properties \<Rightarrow> py_error + json" where
  "rows_spacing self =
     (case getitem_key (props_data self) ''rows'' of
        Inl e \<Rightarrow> Inl e
      | Inr rows \<Rightarrow> getitem_key rows ''spacing'')"

definition critical_value_size :: "Properties \<Rightarrow> py_error + json" where
  "critical_value_size self =
     (case getitem_key (props_data self) ''rows'' of
        Inl e \<Rightarrow> Inl e
      | Inr rows \<Rightarrow> getitem_key rows ''critical_value_size'')"

definition font_size :: "Properties \<Rightarrow> py_error + json" where
  "font_size self =
     (case getitem_key (props_data self) ''font'' of
        Inl e \<Rightarrow> Inl e
      | Inr font \<Rightarrow> getitem_key font ''size'')"

definition mode :: "Properties \<Rightarrow> py_error + json" where
  "mode self = getitem_key (props_data self) ''mode''"

subsection \<open>Messages\<close>

definition msgs_schema :: schema where
  "msgs_schema =
     [K_type T_object,
      K_properties [(''main_window_caption'', [K_type T_string])],
      K_required [''main_window_caption''],
      K_additionalProperties False]"

datatype Messages = Messages (msgs_data: json)

definition Messages_init :: "validator \<Rightarrow> json \<Rightarrow> py_error + Messages" where
  "Messages_init validate data =
     (case parse_json validate data msgs_schema of
        Inl e \<Rightarrow> Inl e
      | Inr d \<Rightarrow> Inr (Messages d))"

definition Messages_getitem :: "Messages \<Rightarrow> string \<Rightarrow> py_error + json" where
  "Messages_getitem self key = getitem_key (msgs_data self) key"

definition main_window_caption :: "Messages \<Rightarrow> py_error + json" where
  "main_window_caption self = Messages_getitem self ''main_window_caption''"

subsection \<open>DataItem\<close>

datatype DataItem = DataItem (item_data: json)

definition DataItem_init :: "json \<Rightarrow> py_error + DataItem" where
  "DataItem_init data = Inr (DataItem data)"

definition DataItem_name :: "DataItem \<Rightarrow> py_error + json" where
  "DataItem_name self = getitem_key (item_data self) ''name''"

definition DataItem_value :: "DataItem \<Rightarrow> py_error + json" where
  "DataItem_value self = getitem_key (item_data self) ''value''"

subsection \<open>DataGroup\<close>

datatype DataGroup = DataGroup (group_data: json)

definition DataGroup_init :: "json \<Rightarrow> py_error + DataGroup" where
  "DataGroup_init data = Inr (DataGroup data)"

definition DataGroup_name :: "DataGroup \<Rightarrow> py_error + json" where
  "DataGroup_name self = getitem_key (group_data self) ''name''"

definition DataGroup_getitem :: "DataGroup \<Rightarrow> int \<Rightarrow> py_error + DataItem" where
  "DataGroup_getitem self index =
     (case getitem_key (group_data self) ''data'' of
        Inl e \<Rightarrow> Inl e
      | Inr items \<Rightarrow>
          (case getitem_index items index of
             Inl e \<Rightarrow> Inl e
           | Inr item \<Rightarrow> Inr (DataItem item)))"

definition DataGroup_iter :: "DataGroup \<Rightarrow> py_error + DataItem map_object" where
  "DataGroup_iter self =
     (case getitem_key (group_data self) ''data'' of
        Inl e \<Rightarrow> Inl e
      | Inr items \<Rightarrow> py_map (\<lambda>item. DataItem item) items)"

definition DataGroup_len :: "DataGroup \<Rightarrow> py_error + nat" where
  "DataGroup_len self = py_len (group_data self)"

subsection \<open>Data\<close>

definition data_schema :: schema where
  "data_schema =
     [K_type T_array,
      K_items
        [K_type T_object,
         K_properties
           [(''name'', [K_type T_string]),
            (''data'',
               [K_type T_array,
                K_items
                  [K_type T_object,
                   K_properties
                     [(''name'', [K_type T_string]),
                      (''value'', [K_type T_string])],
                   K_required [''name'', ''value''],
                   K_additionalProperties False],
                K_minItems 1])],
         K_required [''name'', ''data''],
         K_additionalProperties False],
      K_minItems 1]"

datatype Data = Data (data_data: json)

definition Data_init :: "validator \<Rightarrow> json \<Rightarrow> py_error + Data" where
  "Data_init validate data =
     (case parse_json validate data data_schema of
        Inl e \<Rightarrow> Inl e
      | Inr d \<Rightarrow> Inr (Data d))"

definition Data_getitem :: "Data \<Rightarrow> int \<Rightarrow> py_error + DataGroup" where
  "Data_getitem self index =
     (case getitem_index (data_data self) index of
        Inl e \<Rightarrow> Inl e
      | Inr item \<Rightarrow> Inr (DataGroup item))"

definition Data_iter :: "Data \<Rightarrow> py_error + DataGroup map_object" where
  "Data_iter self = py_map (\<lambda>item. DataGroup item) (data_data self)"

definition Data_len :: "Data \<Rightarrow> py_error + nat" where
  "Data_len self = py_len (data_data self)"

section \<open>Notions used to state the properties\<close>

text \<open>Reading a decimal numeral back, to say what a bare number is.\<close>

definition digit_value :: "char \<Rightarrow> nat" where
  "digit_value c = of_char c - 48"

definition decimal_value :: "string \<Rightarrow> nat" where
  "decimal_value s = foldl (\<lambda>a c. 10 * a + digit_value c) 0 s"

text \<open>The node of a document that a path leads to from the root, if there is one.\<close>

fun resolve :: "json \<Rightarrow> path_elem list \<Rightarrow> json option" where
  "resolve d [] = Some d"
| "resolve (JObj kvs) (Key k # p) =
     (case map_of kvs k of None \<Rightarrow> None | Some c \<Rightarrow> resolve c p)"
| "resolve (JArr xs) (Index i # p) =
     (if 0 \<le> i \<and> nat i < length xs then resolve (xs ! nat i) p else None)"
| "resolve _ _ = None"

text \<open>
  The schemas that apply at the end of a path: a key leads into the schema declared for
  it under \<^verbatim>\<open>properties\<close>, an index into the \<^verbatim>\<open>items\<close> schema.
\<close>

fun schema_at :: "schema \<Rightarrow> path_elem list \<Rightarrow> schema list" where
  "schema_at s [] = [s]"
| "schema_at s (Key k # p) =
     concat (map (\<lambda>kw. case kw of
                          K_properties props \<Rightarrow>
                            concat (map (\<lambda>(k', sub). if k' = k then schema_at sub p else []) props)
                        | _ \<Rightarrow> []) s)"
| "schema_at s (Index i # p) =
     concat (map (\<lambda>kw. case kw of K_items sub \<Rightarrow> schema_at sub p | _ \<Rightarrow> []) s)"

definition required_keys :: "schema \<Rightarrow> string list" where
  "required_keys s = concat (map (\<lambda>kw. case kw of K_required req \<Rightarrow> req | _ \<Rightarrow> []) s)"

text \<open>
  The six schema rules in the words of the specification: what it means that the node
  \<open>n\<close> breaks a rule of the schema \<open>s\<close>, by kind of violation: wrong type, missing
  required key, undeclared extra keys, integer below its minimum, value outside the
  enumeration, array shorter than its minimum length.
\<close>

fun rule_broken :: "schema \<Rightarrow> json \<Rightarrow> violation \<Rightarrow> bool" where
  "rule_broken s n (Not_of_type x t) = (x = n \<and> K_type t \<in> set s \<and> \<not> is_type n t)"
| "rule_broken s n (Required_property k) =
     (k \<in> set (required_keys s) \<and> (case n of JObj kvs \<Rightarrow> k \<notin> fst ` set kvs | _ \<Rightarrow> False))"
| "rule_broken s n (Additional_properties ks) =
     (K_additionalProperties False \<in> set s \<and>
      (case n of
         JObj kvs \<Rightarrow> ks = find_additional_properties kvs s \<and> ks \<noteq> []
       | _ \<Rightarrow> False))"
| "rule_broken s n (Less_than_minimum x m) =
     (x = n \<and> K_minimum m \<in> set s \<and> (case n of JInt i \<Rightarrow> i < m | _ \<Rightarrow> False))"
| "rule_broken s n (Not_one_of x es) = (x = n \<and> K_enum es \<in> set s \<and> n \<notin> JStr ` set es)"
| "rule_broken s n (Too_short x m) =
     (x = n \<and> K_minItems m \<in> set s \<and> (case n of JArr xs \<Rightarrow> length xs < m | _ \<Rightarrow> False))"

text \<open>The document \<open>d\<close> breaks a rule of the schema \<open>s\<close> at the node that \<open>p\<close> leads to.\<close>

definition violated_at :: "schema \<Rightarrow> json \<Rightarrow> path_elem list \<Rightarrow> violation \<Rightarrow> bool" where
  "violated_at s d p v =
     (case resolve d p of
        None \<Rightarrow> False
      | Some n \<Rightarrow> list_ex (\<lambda>s'. rule_broken s' n v) (schema_at s p))"

text \<open>The two schemas nested in \<open>data_schema\<close>: of a group and of an item.\<close>

definition item_schema :: schema where
  "item_schema =
     [K_type T_object,
      K_properties [(''name'', [K_type T_string]), (''value'', [K_type T_string])],
      K_required [''name'', ''value''],
      K_additionalProperties False]"

definition group_schema :: schema where
  "group_schema =
     [K_type T_object,
      K_properties
        [(''name'', [K_type T_string]),
         (''data'', [K_type T_array, K_items item_schema, K_minItems 1])],
      K_required [''name'', ''data''],
      K_additionalProperties False]"

text \<open>The keyword that a violation belongs to (the library's \<^verbatim>\<open>error.validator\<close>).\<close>

fun violated_keyword :: "violation \<Rightarrow> string" where
  "violated_keyword (Not_of_type x t) = ''type''"
| "violated_keyword (Required_property k) = ''required''"
| "violated_keyword (Additional_properties ks) = ''additionalProperties''"
| "violated_keyword (Less_than_minimum x m) = ''minimum''"
| "violated_keyword (Not_one_of x es) = ''enum''"
| "violated_keyword (Too_short x m) = ''minItems''"

text \<open>
  The document obtained by adding the new key \<open>k\<close>, with value \<open>v\<close>, to the object that
  \<open>p\<close> leads to; \<open>None\<close> when there is no object there or it has the key already.
\<close>

fun add_key :: "path_elem list \<Rightarrow> string \<Rightarrow> json \<Rightarrow> json \<Rightarrow> json option" where
  "add_key [] k v (JObj kvs) =
     (if k \<in> fst ` set kvs then None else Some (JObj (kvs @ [(k, v)])))"
| "add_key (Key k' # p) k v (JObj kvs) =
     (case map_of kvs k' of
        None \<Rightarrow> None
      | Some c \<Rightarrow>
          (case add_key p k v c of
             None \<Rightarrow> None
           | Some c' \<Rightarrow> Some (JObj (map (\<lambda>(a, b). if a = k' then (a, c') else (a, b)) kvs))))"
| "add_key (Index i # p) k v (JArr xs) =
     (if 0 \<le> i \<and> nat i < length xs
      then (case add_key p k v (xs ! nat i) of
              None \<Rightarrow> None
            | Some c' \<Rightarrow> Some (JArr (xs[nat i := c'])))
      else None)"
| "add_key _ _ _ _ = None"

text \<open>
  A schema is closed when, at every level, \<^verbatim>\<open>properties\<close> comes with
  \<^verbatim>\<open>'additionalProperties': False\<close>.
\<close>

fun closed_schema :: "schema \<Rightarrow> bool" and closed_keyword :: "keyword \<Rightarrow> bool" where
  "closed_schema s =
     ((list_ex (\<lambda>kw. case kw of K_properties props \<Rightarrow> True | _ \<Rightarrow> False) s
         \<longrightarrow> K_additionalProperties False \<in> set s)
      \<and> list_all closed_keyword s)"
| "closed_keyword (K_properties props) = list_all (\<lambda>(k, sub). closed_schema sub) props"
| "closed_keyword (K_items sub) = closed_schema sub"
| "closed_keyword _ = True"

declare closed_schema.simps [simp del]

section \<open>Path rendering\<close>

lemma digit_char_value: "d < 10 \<Longrightarrow> digit_value (digit_char d) = d"
proof -
  assume "d < 10"
  then have "d \<in> {0,1,2,3,4,5,6,7,8,9}" by auto
  then show ?thesis by (auto simp: digit_value_def digit_char_def)
qed

lemma digit_char_in: "d < 10 \<Longrightarrow> digit_char d \<in> set ''0123456789''"
  unfolding digit_char_def by (rule nth_mem) simp

lemma str_nat_digits: "set (str_nat n) \<subseteq> set ''0123456789''"
proof (induction n rule: str_nat.induct)
  case (1 n)
  show ?case
  proof (cases "n < 10")
    case True
    then show ?thesis using digit_char_in [of n] by (subst str_nat.simps) simp
  next
    case False
    have "n mod 10 < 10" by simp
    then have "digit_char (n mod 10) \<in> set ''0123456789''" by (rule digit_char_in)
    with False 1 show ?thesis by (subst str_nat.simps) simp
  qed
qed

lemma str_nat_value: "decimal_value (str_nat n) = n"
proof (induction n rule: str_nat.induct)
  case (1 n)
  show ?case
  proof (cases "n < 10")
    case True
    then show ?thesis
      by (subst str_nat.simps) (simp add: decimal_value_def digit_char_value)
  next
    case False
    with 1 have "decimal_value (str_nat (n div 10)) = n div 10" by simp
    with False show ?thesis
      by (subst str_nat.simps) (simp add: decimal_value_def digit_char_value)
  qed
qed

lemma join_brackets:
  "xs \<noteq> [] \<Longrightarrow> ''['' @ join '']['' xs @ '']'' = concat (map (\<lambda>x. ''['' @ x @ '']'') xs)"
  by (induction "''][''" xs rule: join.induct) auto

lemma path_str_steps:
  "path_str p = (if p = [] then ''[]'' else concat (map (\<lambda>s. ''['' @ elem_str s @ '']'') p))"
proof (cases "p = []")
  case True
  then show ?thesis by (simp add: path_str_def)
next
  case False
  then have "map elem_str p \<noteq> []" by simp
  from join_brackets [OF this] False show ?thesis
    by (simp add: path_str_def comp_def)
qed

text \<open>
  C1. Whenever the validator raises its error, \<^verbatim>\<open>_parse_json\<close> raises one PropertiesError
  whose text is the validator's message followed by the rendered path. The rendered path
  is \<open>[]\<close> for the empty path and otherwise the steps one after the other, each in its own
  brackets; a key is put between double quotes, an index is its decimal numeral.
\<close>

theorem parse_json_error_path:
  assumes "validate data schema = Some err"
  shows "parse_json validate data schema =
           Inl (PropertiesError (message err @ '' (path: '' @ path_str (path err) @ '')''))
       \<and> path_str (path err) =
           (if path err = [] then ''[]''
            else concat (map (\<lambda>s. ''['' @ elem_str s @ '']'') (path err)))
       \<and> (\<forall>k. elem_str (Key k) = [CHR 0x22] @ k @ [CHR 0x22])
       \<and> (\<forall>n. elem_str (Index (int n)) = str_nat n
              \<and> set (str_nat n) \<subseteq> set ''0123456789''
              \<and> decimal_value (str_nat n) = n)"
proof -
  have "parse_json validate data schema =
          Inl (PropertiesError (message err @ '' (path: '' @ path_str (path err) @ '')''))"
    using assms by (simp add: parse_json_def)
  moreover have "elem_str (Index (int n)) = str_nat n" for n
    by (simp add: str_int_def)
  moreover have "elem_str (Key k) = [CHR 0x22] @ k @ [CHR 0x22]" for k
    by simp
  ultimately show ?thesis
    using path_str_steps [of "path err"] str_nat_digits str_nat_value by blast
qed

theorem parse_json_error_path_witness:
  "jsonschema_validate (\<lambda>v. ''not an object'')
       (JArr [JObj [(''name'', JStr ''g1''), (''data'', JArr [JObj [(''name'', JStr ''a''), (''value'', JStr ''1'')]])],
              JObj [(''name'', JStr ''g2''), (''data'', JArr [JObj [(''name'', JStr ''b''), (''value'', JStr ''2'')]])],
              JInt 7])
       data_schema
     = Some \<lparr>message = ''not an object'', path = [Index 2]\<rparr>
   \<and> parse_json (jsonschema_validate (\<lambda>v. ''not an object''))
       (JArr [JObj [(''name'', JStr ''g1''), (''data'', JArr [JObj [(''name'', JStr ''a''), (''value'', JStr ''1'')]])],
              JObj [(''name'', JStr ''g2''), (''data'', JArr [JObj [(''name'', JStr ''b''), (''value'', JStr ''2'')]])],
              JInt 7])
       data_schema
     = Inl (PropertiesError ''not an object (path: [2])'')
   \<and> path_str [Key ''rows'', Index 0] = [CHR ''['', CHR 0x22] @ ''rows'' @ [CHR 0x22] @ ''][0]''
   \<and> path_str [] = ''[]''"
proof -
  let ?doc = "JArr [JObj [(''name'', JStr ''g1''), (''data'', JArr [JObj [(''name'', JStr ''a''), (''value'', JStr ''1'')]])],
              JObj [(''name'', JStr ''g2''), (''data'', JArr [JObj [(''name'', JStr ''b''), (''value'', JStr ''2'')]])],
              JInt 7]"
  have h: "jsonschema_validate (\<lambda>v. ''not an object'') ?doc data_schema
             = Some \<lparr>message = ''not an object'', path = [Index 2]\<rparr>"
    by code_simp
  have p: "path_str [Key ''rows'', Index 0] = [CHR ''['', CHR 0x22] @ ''rows'' @ [CHR 0x22] @ ''][0]''"
    by code_simp
  have e: "path_str [] = ''[]''"
    by code_simp
  have n: "path_str [Index 2] = ''[2]''"
    by code_simp
  have "parse_json (jsonschema_validate (\<lambda>v. ''not an object'')) ?doc data_schema
          = Inl (PropertiesError (''not an object'' @ '' (path: '' @ path_str [Index 2] @ '')''))"
    using parse_json_error_path
         [of "jsonschema_validate (\<lambda>v. ''not an object'')" ?doc data_schema
             "\<lparr>message = ''not an object'', path = [Index 2]\<rparr>", OF h]
    by simp
  then have "parse_json (jsonschema_validate (\<lambda>v. ''not an object'')) ?doc data_schema
          = Inl (PropertiesError ''not an object (path: [2])'')"
    unfolding n by simp
  with h p e show ?thesis
    by blast
qed

section \<open>Violations and where the validator finds them\<close>

lemma in_descend: "(v, p) \<in> set (descend st es) \<longleftrightarrow> (\<exists>p'. p = st # p' \<and> (v, p') \<in> set es)"
  by (auto simp: descend_def)

lemma map_of_None_iff: "map_of kvs k = None \<longleftrightarrow> k \<notin> fst ` set kvs"
  by (simp add: map_of_eq_None_iff)

lemma in_iter_errors:
  "e \<in> set (iter_errors s d) \<longleftrightarrow> (\<exists>kw \<in> set s. e \<in> set (keyword_errors s kw d))"
  by (simp add: iter_errors.simps)

lemma required_keys_iff:
  "k \<in> set (required_keys s) \<longleftrightarrow> (\<exists>req. K_required req \<in> set s \<and> k \<in> set req)"
  by (auto simp: required_keys_def split: keyword.splits)

lemma root_sound:
  "kw \<in> set s \<Longrightarrow> (v, []) \<in> set (keyword_errors s kw d) \<Longrightarrow> rule_broken s d v"
  by (cases kw)
     (auto simp: in_descend map_of_None_iff required_keys_iff Let_def
           split: json.splits option.splits if_splits)

lemma root_complete:
  assumes "rule_broken s d v"
  shows "\<exists>kw \<in> set s. (v, []) \<in> set (keyword_errors s kw d)"
proof (cases v)
  case (Not_of_type x t)
  with assms show ?thesis by (intro bexI [of _ "K_type t"]) auto
next
  case (Required_property k)
  with assms obtain req where "K_required req \<in> set s" "k \<in> set req"
    by (auto simp: required_keys_iff)
  with assms Required_property show ?thesis
    by (intro bexI [of _ "K_required req"]) (auto simp: map_of_None_iff split: json.splits)
next
  case (Additional_properties ks)
  with assms show ?thesis
    by (intro bexI [of _ "K_additionalProperties False"]) (auto split: json.splits)
next
  case (Less_than_minimum x m)
  with assms show ?thesis
    by (intro bexI [of _ "K_minimum m"]) (auto split: json.splits)
next
  case (Not_one_of x es)
  with assms show ?thesis by (intro bexI [of _ "K_enum es"]) auto
next
  case (Too_short x m)
  with assms show ?thesis
    by (intro bexI [of _ "K_minItems m"]) (auto split: json.splits)
qed

lemma iter_errors_root: "(v, []) \<in> set (iter_errors s d) \<longleftrightarrow> rule_broken s d v"
  using root_sound [of _ s v d] root_complete [of s d v] by (auto simp: in_iter_errors)

lemma properties_errors_key:
  "(v, Key k # p) \<in> set (keyword_errors s (K_properties props) d) \<longleftrightarrow>
     (\<exists>sub kvs c. (k, sub) \<in> set props \<and> d = JObj kvs
        \<and> map_of kvs k = Some c \<and> (v, p) \<in> set (iter_errors sub c))"
proof (cases d)
  case (JObj kvs)
  show ?thesis
  proof
    assume "(v, Key k # p) \<in> set (keyword_errors s (K_properties props) d)"
    then obtain sub c where "(k, sub) \<in> set props" "map_of kvs k = Some c"
        "(v, p) \<in> set (iter_errors sub c)"
      unfolding JObj by (auto simp: in_descend split: option.splits) metis
    with JObj show "\<exists>sub kvs c. (k, sub) \<in> set props \<and> d = JObj kvs
        \<and> map_of kvs k = Some c \<and> (v, p) \<in> set (iter_errors sub c)"
      by blast
  next
    assume "\<exists>sub kvs c. (k, sub) \<in> set props \<and> d = JObj kvs
        \<and> map_of kvs k = Some c \<and> (v, p) \<in> set (iter_errors sub c)"
    then obtain sub c where *: "(k, sub) \<in> set props" "map_of kvs k = Some c"
        "(v, p) \<in> set (iter_errors sub c)"
      using JObj by auto
    then have "(v, Key k # p) \<in> set (descend (Key k) (iter_errors sub c))"
      by (simp add: in_descend)
    with * show "(v, Key k # p) \<in> set (keyword_errors s (K_properties props) d)"
      unfolding JObj by (auto intro!: bexI [of _ "(k, sub)"])
  qed
qed simp_all

lemma items_errors_index:
  "(v, Index i # p) \<in> set (keyword_errors s (K_items sub) d) \<longleftrightarrow>
     (\<exists>xs. d = JArr xs \<and> 0 \<le> i \<and> nat i < length xs
        \<and> (v, p) \<in> set (iter_errors sub (xs ! nat i)))"
proof (cases d)
  case (JArr xs)
  show ?thesis
  proof
    assume "(v, Index i # p) \<in> set (keyword_errors s (K_items sub) d)"
    then show "\<exists>xs. d = JArr xs \<and> 0 \<le> i \<and> nat i < length xs
        \<and> (v, p) \<in> set (iter_errors sub (xs ! nat i))"
      unfolding JArr by (auto simp: in_descend)
  next
    assume "\<exists>xs. d = JArr xs \<and> 0 \<le> i \<and> nat i < length xs
        \<and> (v, p) \<in> set (iter_errors sub (xs ! nat i))"
    then have *: "0 \<le> i" "nat i < length xs" "(v, p) \<in> set (iter_errors sub (xs ! nat i))"
      using JArr by auto
    then show "(v, Index i # p) \<in> set (keyword_errors s (K_items sub) d)"
      unfolding JArr by (auto simp: in_descend intro!: bexI [of _ "nat i"])
  qed
qed simp_all

lemma keyword_errors_key:
  "(v, Key k # p) \<in> set (keyword_errors s kw d) \<longleftrightarrow>
     (\<exists>props sub kvs c. kw = K_properties props \<and> (k, sub) \<in> set props \<and> d = JObj kvs
        \<and> map_of kvs k = Some c \<and> (v, p) \<in> set (iter_errors sub c))"
proof (cases kw)
  case (K_properties props)
  then show ?thesis using properties_errors_key [of v k p s props d] by blast
qed (auto simp: in_descend Let_def split: json.splits)

lemma keyword_errors_index:
  "(v, Index i # p) \<in> set (keyword_errors s kw d) \<longleftrightarrow>
     (\<exists>sub xs. kw = K_items sub \<and> d = JArr xs \<and> 0 \<le> i \<and> nat i < length xs
        \<and> (v, p) \<in> set (iter_errors sub (xs ! nat i)))"
proof (cases kw)
  case (K_items sub)
  then show ?thesis using items_errors_index [of v i p s sub d] by blast
qed (auto simp: in_descend Let_def split: json.splits option.splits)

lemma iter_errors_key:
  "(v, Key k # p) \<in> set (iter_errors s d) \<longleftrightarrow>
     (\<exists>props sub kvs c. K_properties props \<in> set s \<and> (k, sub) \<in> set props \<and> d = JObj kvs
        \<and> map_of kvs k = Some c \<and> (v, p) \<in> set (iter_errors sub c))"
proof -
  have "(v, Key k # p) \<in> set (iter_errors s d) \<longleftrightarrow>
          (\<exists>kw \<in> set s. (v, Key k # p) \<in> set (keyword_errors s kw d))"
    by (rule in_iter_errors)
  then show ?thesis unfolding keyword_errors_key by blast
qed

lemma iter_errors_index:
  "(v, Index i # p) \<in> set (iter_errors s d) \<longleftrightarrow>
     (\<exists>sub xs. K_items sub \<in> set s \<and> d = JArr xs \<and> 0 \<le> i \<and> nat i < length xs
        \<and> (v, p) \<in> set (iter_errors sub (xs ! nat i)))"
proof -
  have "(v, Index i # p) \<in> set (iter_errors s d) \<longleftrightarrow>
          (\<exists>kw \<in> set s. (v, Index i # p) \<in> set (keyword_errors s kw d))"
    by (rule in_iter_errors)
  then show ?thesis unfolding keyword_errors_index by blast
qed

lemma schema_at_key:
  "s' \<in> set (schema_at s (Key k # p)) \<longleftrightarrow>
     (\<exists>props sub. K_properties props \<in> set s \<and> (k, sub) \<in> set props \<and> s' \<in> set (schema_at sub p))"
  by (auto split: keyword.splits if_splits) 

lemma schema_at_index:
  "s' \<in> set (schema_at s (Index i # p)) \<longleftrightarrow>
     (\<exists>sub. K_items sub \<in> set s \<and> s' \<in> set (schema_at sub p))"
  by (auto split: keyword.splits)

lemma iter_errors_violated_at:
  "(v, p) \<in> set (iter_errors s d) \<longleftrightarrow> violated_at s d p v"
proof (induction p arbitrary: s d)
  case Nil
  show ?case by (simp add: iter_errors_root violated_at_def)
next
  case (Cons st p)
  have vat: "violated_at s d (st # p) v \<longleftrightarrow>
           (\<exists>n s'. resolve d (st # p) = Some n \<and> s' \<in> set (schema_at s (st # p)) \<and> rule_broken s' n v)"
    for s d st p
    by (auto simp: violated_at_def list_ex_iff split: option.splits)
  have vat': "violated_at s d p v \<longleftrightarrow>
           (\<exists>n s'. resolve d p = Some n \<and> s' \<in> set (schema_at s p) \<and> rule_broken s' n v)"
    for s d
    by (auto simp: violated_at_def list_ex_iff split: option.splits)
  show ?case
  proof (cases st)
    case (Key k)
    show ?thesis
      unfolding Key iter_errors_key Cons.IH vat schema_at_key vat'
      by (cases d) (auto split: option.splits)
  next
    case (Index i)
    show ?thesis
      unfolding Index iter_errors_index Cons.IH vat schema_at_index vat'
      by (cases d) (auto split: option.splits)
  qed
qed


lemma validate_None_iff: "jsonschema_validate msg d s = None \<longleftrightarrow> iter_errors s d = []"
  by (auto simp: jsonschema_validate_def split: list.splits)

lemma validate_first:
  "iter_errors s d = (v, p) # es \<Longrightarrow> jsonschema_validate msg d s = Some \<lparr>message = msg v, path = p\<rparr>"
  by (simp add: jsonschema_validate_def)

lemma only_violation:
  assumes "iter_errors s d = [(v, p)]"
  shows "violated_at s d p v \<and> (\<forall>p' v'. violated_at s d p' v' \<longrightarrow> p' = p \<and> v' = v)"
  using assms iter_errors_violated_at [of _ _ s d] by (metis list.set_intros(1) empty_iff empty_set set_ConsD prod.inject)

text \<open>
  C3. Rejection completeness. Whichever of the six rules a document breaks (a required
  key is missing, an undeclared key is present, a value has the wrong type, an integer
  is below its minimum, a value is outside the enumeration, an array is shorter than its
  minimum length), if that is the only rule it breaks, at the node that the path \<open>p\<close>
  leads to, then the view constructor raises the PropertiesError made of the message for
  that violation and the rendered path \<open>p\<close> of that node.
\<close>

theorem rejection_completeness:
  assumes "violated_at S d p v"
      and "\<forall>p' v'. violated_at S d p' v' \<longrightarrow> p' = p \<and> v' = v"
  shows "parse_json (jsonschema_validate msg) d S =
           Inl (PropertiesError (msg v @ '' (path: '' @ path_str p @ '')''))
       \<and> (S = props_schema \<longrightarrow> Properties_init (jsonschema_validate msg) d =
             Inl (PropertiesError (msg v @ '' (path: '' @ path_str p @ '')'')))
       \<and> (S = msgs_schema \<longrightarrow> Messages_init (jsonschema_validate msg) d =
             Inl (PropertiesError (msg v @ '' (path: '' @ path_str p @ '')'')))
       \<and> (S = data_schema \<longrightarrow> Data_init (jsonschema_validate msg) d =
             Inl (PropertiesError (msg v @ '' (path: '' @ path_str p @ '')'')))"
proof -
  from assms(1) have "(v, p) \<in> set (iter_errors S d)"
    by (simp add: iter_errors_violated_at)
  then obtain e es where es: "iter_errors S d = e # es"
    by (cases "iter_errors S d") auto
  then have "e \<in> set (iter_errors S d)" by simp
  then have "violated_at S d (snd e) (fst e)"
    using iter_errors_violated_at [of "fst e" "snd e" S d] by simp
  with assms(2) have "e = (v, p)" by (cases e) auto
  with es have "jsonschema_validate msg d S = Some \<lparr>message = msg v, path = p\<rparr>"
    by (simp add: validate_first)
  then have "parse_json (jsonschema_validate msg) d S =
           Inl (PropertiesError (msg v @ '' (path: '' @ path_str p @ '')''))"
    by (simp add: parse_json_def)
  then show ?thesis
    by (auto simp: Properties_init_def Messages_init_def Data_init_def)
qed

lemma closed_schema_additional:
  assumes "closed_schema s" and "K_properties props \<in> set s"
  shows "K_additionalProperties False \<in> set s"
proof -
  from assms(2) have "list_ex (\<lambda>kw. case kw of K_properties props \<Rightarrow> True | _ \<Rightarrow> False) s"
    unfolding list_ex_iff by (intro bexI [of _ "K_properties props"]) simp_all
  with assms(1) show ?thesis by (simp add: closed_schema.simps)
qed

lemma closed_schema_property:
  assumes "closed_schema s" and "K_properties props \<in> set s" and "(k, sub) \<in> set props"
  shows "closed_schema sub"
proof -
  from assms(1) have "\<forall>kw \<in> set s. closed_keyword kw"
    by (simp add: closed_schema.simps list_all_iff)
  with assms(2) have "closed_keyword (K_properties props)"
    by blast
  with assms(3) show ?thesis by (auto simp: list_all_iff)
qed

lemma closed_schema_items:
  assumes "closed_schema s" and "K_items sub \<in> set s"
  shows "closed_schema sub"
proof -
  from assms(1) have "\<forall>kw \<in> set s. closed_keyword kw"
    by (simp add: closed_schema.simps list_all_iff)
  with assms(2) have "closed_keyword (K_items sub)"
    by blast
  then show ?thesis by simp
qed

lemma map_of_replace:
  "map_of kvs k = Some c \<Longrightarrow>
   map_of (map (\<lambda>(a, b). if a = k then (a, c') else (a, b)) kvs) k = Some c'"
  by (induction kvs) (auto split: if_splits)

lemma add_key_resolve:
  "add_key p k v d = Some d' \<Longrightarrow>
   \<exists>kvs. resolve d p = Some (JObj kvs) \<and> k \<notin> fst ` set kvs
        \<and> resolve d' p = Some (JObj (kvs @ [(k, v)]))"
proof (induction p k v d arbitrary: d' rule: add_key.induct)
  case (1 k v kvs)
  then show ?case by (auto split: if_splits)
next
  case (2 k' p k v kvs)
  then show ?case by (auto split: option.splits simp: map_of_replace)
next
  case (3 i p k v xs)
  then show ?case by (auto split: option.splits if_splits)
qed simp_all

lemma closed_schema_at:
  "closed_schema s \<Longrightarrow> s' \<in> set (schema_at s p) \<Longrightarrow> closed_schema s'"
proof (induction p arbitrary: s)
  case Nil
  then show ?case by simp
next
  case (Cons st p)
  show ?case
  proof (cases st)
    case (Key k)
    with Cons.prems obtain props sub where
      "K_properties props \<in> set s" "(k, sub) \<in> set props" "s' \<in> set (schema_at sub p)"
      by (auto simp: schema_at_key)
    moreover from this Cons.prems(1) have "closed_schema sub"
      using closed_schema_property by blast
    ultimately show ?thesis using Cons.IH by blast
  next
    case (Index i)
    with Cons.prems obtain sub where "K_items sub \<in> set s" "s' \<in> set (schema_at sub p)"
      by (auto simp: schema_at_index)
    moreover from this Cons.prems(1) have "closed_schema sub"
      using closed_schema_items by blast
    ultimately show ?thesis using Cons.IH by blast
  qed
qed

lemma closed_three:
  "closed_schema props_schema" "closed_schema msgs_schema" "closed_schema data_schema"
  by code_simp+

lemma add_key_rejected:
  assumes "closed_schema S"
      and "s' \<in> set (schema_at S p)"
      and "K_properties props \<in> set s'"
      and "k \<notin> fst ` set (schema_properties s')"
      and "add_key p k v d = Some d'"
  shows "\<exists>ks. violated_at S d' p (Additional_properties ks)"
proof -
  from add_key_resolve [OF assms(5)] obtain kvs where
    r: "resolve d' p = Some (JObj (kvs @ [(k, v)]))" by blast
  from closed_schema_at [OF assms(1,2)] assms(3)
  have ap: "K_additionalProperties False \<in> set s'"
    using closed_schema_additional by blast
  have "k \<in> set (find_additional_properties (kvs @ [(k, v)]) s')"
    using assms(4) by (simp add: find_additional_properties_def)
  then have "find_additional_properties (kvs @ [(k, v)]) s' \<noteq> []" by auto
  with ap have "rule_broken s' (JObj (kvs @ [(k, v)]))
                  (Additional_properties (find_additional_properties (kvs @ [(k, v)]) s'))"
    by simp
  with r assms(2) show ?thesis
    by (auto simp: violated_at_def list_ex_iff)
qed

theorem rejection_completeness_witness:
  "Properties_init (jsonschema_validate violated_keyword)
     (JObj [(''rows'', JObj [(''height'', JInt 0), (''spacing'', JInt 2)]),
            (''font'', JObj [(''size'', JInt 12)]),
            (''mode'', JStr ''rows'')])
   = Inl (PropertiesError (''minimum'' @ '' (path: '' @ path_str [Key ''rows'', Key ''height''] @ '')''))
 \<and> Properties_init (jsonschema_validate violated_keyword)
     (JObj [(''rows'', JObj [(''spacing'', JInt 2)]),
            (''font'', JObj [(''size'', JInt 12)]),
            (''mode'', JStr ''rows'')])
   = Inl (PropertiesError (''required'' @ '' (path: '' @ path_str [Key ''rows''] @ '')''))
 \<and> Properties_init (jsonschema_validate violated_keyword)
     (JObj [(''rows'', JObj [(''height'', JInt 10), (''spacing'', JInt 2)]),
            (''font'', JObj [(''size'', JInt 12)]),
            (''mode'', JStr ''diagonal'')])
   = Inl (PropertiesError (''enum'' @ '' (path: '' @ path_str [Key ''mode''] @ '')''))
 \<and> Messages_init (jsonschema_validate violated_keyword)
     (JObj [(''main_window_caption'', JStr ''Copy helper''), (''footer'', JStr ''x'')])
   = Inl (PropertiesError (''additionalProperties'' @ '' (path: '' @ path_str [] @ '')''))
 \<and> Data_init (jsonschema_validate violated_keyword)
     (JArr [JObj [(''name'', JInt 1),
                  (''data'', JArr [JObj [(''name'', JStr ''a''), (''value'', JStr ''1'')]])]])
   = Inl (PropertiesError (''type'' @ '' (path: '' @ path_str [Index 0, Key ''name''] @ '')''))
 \<and> Data_init (jsonschema_validate violated_keyword)
     (JArr [JObj [(''name'', JStr ''g1''), (''data'', JArr [])]])
   = Inl (PropertiesError (''minItems'' @ '' (path: '' @ path_str [Index 0, Key ''data''] @ '')''))"
proof -
  let ?m = "violated_keyword"
  let ?d1 = "JObj [(''rows'', JObj [(''height'', JInt 0), (''spacing'', JInt 2)]),
            (''font'', JObj [(''size'', JInt 12)]),
            (''mode'', JStr ''rows'')]"
  let ?d2 = "JObj [(''rows'', JObj [(''spacing'', JInt 2)]),
            (''font'', JObj [(''size'', JInt 12)]),
            (''mode'', JStr ''rows'')]"
  let ?d3 = "JObj [(''rows'', JObj [(''height'', JInt 10), (''spacing'', JInt 2)]),
            (''font'', JObj [(''size'', JInt 12)]),
            (''mode'', JStr ''diagonal'')]"
  let ?d4 = "JObj [(''main_window_caption'', JStr ''Copy helper''), (''footer'', JStr ''x'')]"
  let ?d5 = "JArr [JObj [(''name'', JInt 1),
                  (''data'', JArr [JObj [(''name'', JStr ''a''), (''value'', JStr ''1'')]])]]"
  let ?d6 = "JArr [JObj [(''name'', JStr ''g1''), (''data'', JArr [])]]"
  have e1: "iter_errors props_schema ?d1 = [(Less_than_minimum (JInt 0) 1, [Key ''rows'', Key ''height''])]"
    by code_simp
  have e2: "iter_errors props_schema ?d2 = [(Required_property ''height'', [Key ''rows''])]"
    by code_simp
  have e3: "iter_errors props_schema ?d3
              = [(Not_one_of (JStr ''diagonal'') [''columns'', ''rows''], [Key ''mode''])]"
    by code_simp
  have e4: "iter_errors msgs_schema ?d4 = [(Additional_properties [''footer''], [])]"
    by code_simp
  have e5: "iter_errors data_schema ?d5 = [(Not_of_type (JInt 1) T_string, [Index 0, Key ''name''])]"
    by code_simp
  have e6: "iter_errors data_schema ?d6 = [(Too_short (JArr []) 1, [Index 0, Key ''data''])]"
    by code_simp
  note o1 = only_violation [OF e1] and o2 = only_violation [OF e2] and o3 = only_violation [OF e3]
    and o4 = only_violation [OF e4] and o5 = only_violation [OF e5] and o6 = only_violation [OF e6]
  have "Properties_init (jsonschema_validate ?m) ?d1
   = Inl (PropertiesError (''minimum'' @ '' (path: '' @ path_str [Key ''rows'', Key ''height''] @ '')''))"
    using rejection_completeness [OF conjunct1 [OF o1] conjunct2 [OF o1], of ?m] by simp
  moreover have "Properties_init (jsonschema_validate ?m) ?d2
   = Inl (PropertiesError (''required'' @ '' (path: '' @ path_str [Key ''rows''] @ '')''))"
    using rejection_completeness [OF conjunct1 [OF o2] conjunct2 [OF o2], of ?m] by simp
  moreover have "Properties_init (jsonschema_validate ?m) ?d3
   = Inl (PropertiesError (''enum'' @ '' (path: '' @ path_str [Key ''mode''] @ '')''))"
    using rejection_completeness [OF conjunct1 [OF o3] conjunct2 [OF o3], of ?m] by simp
  moreover have "Messages_init (jsonschema_validate ?m) ?d4
   = Inl (PropertiesError (''additionalProperties'' @ '' (path: '' @ path_str [] @ '')''))"
    using rejection_completeness [OF conjunct1 [OF o4] conjunct2 [OF o4], of ?m] by simp
  moreover have "Data_init (jsonschema_validate ?m) ?d5
   = Inl (PropertiesError (''type'' @ '' (path: '' @ path_str [Index 0, Key ''name''] @ '')''))"
    using rejection_completeness [OF conjunct1 [OF o5] conjunct2 [OF o5], of ?m] by simp
  moreover have "Data_init (jsonschema_validate ?m) ?d6
   = Inl (PropertiesError (''minItems'' @ '' (path: '' @ path_str [Index 0, Key ''data''] @ '')''))"
    using rejection_completeness [OF conjunct1 [OF o6] conjunct2 [OF o6], of ?m] by simp
  ultimately show ?thesis by blast
qed

text \<open>
  C4. Closed objects. Take a document that satisfies one of the three schemas and add a
  key that the schema does not declare to an object of it, at any level at which the
  schema declares \<^verbatim>\<open>properties\<close>: the view constructor rejects the result.
\<close>

theorem closed_object_enforcement:
  assumes "S \<in> {props_schema, msgs_schema, data_schema}"
      and "jsonschema_validate msg d S = None"
      and "s' \<in> set (schema_at S p)"
      and "K_properties (schema_properties s') \<in> set s'"
      and "k \<notin> fst ` set (schema_properties s')"
      and "add_key p k v d = Some d'"
  shows "(S = props_schema \<longrightarrow>
            (\<exists>text. Properties_init (jsonschema_validate msg) d' = Inl (PropertiesError text)))
       \<and> (S = msgs_schema \<longrightarrow>
            (\<exists>text. Messages_init (jsonschema_validate msg) d' = Inl (PropertiesError text)))
       \<and> (S = data_schema \<longrightarrow>
            (\<exists>text. Data_init (jsonschema_validate msg) d' = Inl (PropertiesError text)))"
proof -
  from assms(1) have "closed_schema S"
    using closed_three by auto
  from add_key_rejected [OF this assms(3,4,5,6)]
  obtain ks where "violated_at S d' p (Additional_properties ks)" by blast
  then have "(Additional_properties ks, p) \<in> set (iter_errors S d')"
    by (simp add: iter_errors_violated_at)
  then obtain e es where "iter_errors S d' = e # es"
    by (cases "iter_errors S d'") auto
  then have "\<exists>err. jsonschema_validate msg d' S = Some err"
    by (cases e) (simp add: validate_first)
  then have "\<exists>text. parse_json (jsonschema_validate msg) d' S = Inl (PropertiesError text)"
    by (auto simp: parse_json_def)
  then show ?thesis
    by (auto simp: Properties_init_def Messages_init_def Data_init_def)
qed

theorem closed_object_enforcement_witness:
  "(\<exists>text. Properties_init (jsonschema_validate violated_keyword)
      (JObj [(''rows'', JObj [(''height'', JInt 10), (''spacing'', JInt 2), (''width'', JInt 3)]),
             (''font'', JObj [(''size'', JInt 12)]),
             (''mode'', JStr ''rows'')])
      = Inl (PropertiesError text))
 \<and> (\<exists>text. Messages_init (jsonschema_validate violated_keyword)
      (JObj [(''main_window_caption'', JStr ''Copy helper''), (''footer'', JStr ''x'')])
      = Inl (PropertiesError text))
 \<and> (\<exists>text. Data_init (jsonschema_validate violated_keyword)
      (JArr [JObj [(''name'', JStr ''g1''),
                   (''data'', JArr [JObj [(''name'', JStr ''a''), (''value'', JStr ''1''),
                                          (''colour'', JStr ''red'')]])]])
      = Inl (PropertiesError text))"
proof -
  let ?m = "violated_keyword"
  let ?d1 = "JObj [(''rows'', JObj [(''height'', JInt 10), (''spacing'', JInt 2)]),
             (''font'', JObj [(''size'', JInt 12)]),
             (''mode'', JStr ''rows'')]"
  let ?s1 = "[K_type T_object,
             K_properties
               [(''height'', [K_type T_integer, K_minimum 1]),
                (''spacing'', [K_type T_integer, K_minimum 1]),
                (''critical_value_size'', [K_type T_integer, K_minimum 1])],
             K_required [''height'', ''spacing''],
             K_additionalProperties False]"
  let ?d2 = "JObj [(''main_window_caption'', JStr ''Copy helper'')]"
  let ?d3 = "JArr [JObj [(''name'', JStr ''g1''),
                   (''data'', JArr [JObj [(''name'', JStr ''a''), (''value'', JStr ''1'')]])]]"
  let ?s3 = "[K_type T_object,
                   K_properties
                     [(''name'', [K_type T_string]),
                      (''value'', [K_type T_string])],
                   K_required [''name'', ''value''],
                   K_additionalProperties False]"
  have v1: "jsonschema_validate ?m ?d1 props_schema = None" by code_simp
  have a1: "?s1 \<in> set (schema_at props_schema [Key ''rows''])" by code_simp
  have b1: "K_properties (schema_properties ?s1) \<in> set ?s1" by code_simp
  have c1: "''width'' \<notin> fst ` set (schema_properties ?s1)" by code_simp
  have k1: "add_key [Key ''rows''] ''width'' (JInt 3) ?d1
              = Some (JObj [(''rows'', JObj [(''height'', JInt 10), (''spacing'', JInt 2), (''width'', JInt 3)]),
             (''font'', JObj [(''size'', JInt 12)]),
             (''mode'', JStr ''rows'')])" by code_simp
  have v2: "jsonschema_validate ?m ?d2 msgs_schema = None" by code_simp
  have a2: "msgs_schema \<in> set (schema_at msgs_schema [])" by code_simp
  have b2: "K_properties (schema_properties msgs_schema) \<in> set msgs_schema" by code_simp
  have c2: "''footer'' \<notin> fst ` set (schema_properties msgs_schema)" by code_simp
  have k2: "add_key [] ''footer'' (JStr ''x'') ?d2
              = Some (JObj [(''main_window_caption'', JStr ''Copy helper''), (''footer'', JStr ''x'')])"
    by code_simp
  have v3: "jsonschema_validate ?m ?d3 data_schema = None" by code_simp
  have a3: "?s3 \<in> set (schema_at data_schema [Index 0, Key ''data'', Index 0])" by code_simp
  have b3: "K_properties (schema_properties ?s3) \<in> set ?s3" by code_simp
  have c3: "''colour'' \<notin> fst ` set (schema_properties ?s3)" by code_simp
  have k3: "add_key [Index 0, Key ''data'', Index 0] ''colour'' (JStr ''red'') ?d3
              = Some (JArr [JObj [(''name'', JStr ''g1''),
                   (''data'', JArr [JObj [(''name'', JStr ''a''), (''value'', JStr ''1''),
                                          (''colour'', JStr ''red'')]])]])"
    by code_simp
  have i1: "props_schema \<in> {props_schema, msgs_schema, data_schema}"
   and i2: "msgs_schema \<in> {props_schema, msgs_schema, data_schema}"
   and i3: "data_schema \<in> {props_schema, msgs_schema, data_schema}" by simp_all
  from closed_object_enforcement [OF i1 v1 a1 b1 c1 k1]
       closed_object_enforcement [OF i2 v2 a2 b2 c2 k2]
       closed_object_enforcement [OF i3 v3 a3 b3 c3 k3]
  show ?thesis by blast
qed

section \<open>What a document that satisfies a schema looks like\<close>

lemma iter_errors_Nil:
  "iter_errors s d = [] \<longleftrightarrow> (\<forall>kw \<in> set s. keyword_errors s kw d = [])"
  by (simp add: iter_errors.simps)

lemma descend_Nil: "descend st es = [] \<longleftrightarrow> es = []"
  by (simp add: descend_def)

lemma is_type_iff:
  "is_type x T_object \<longleftrightarrow> (\<exists>kvs. x = JObj kvs)"
  "is_type x T_array \<longleftrightarrow> (\<exists>xs. x = JArr xs)"
  "is_type x T_string \<longleftrightarrow> (\<exists>c. x = JStr c)"
  "is_type x T_integer \<longleftrightarrow> (\<exists>i. x = JInt i)"
  by (cases x; simp)+

lemma string_schema_ok:
  "iter_errors [K_type T_string] x = [] \<longleftrightarrow> (\<exists>c. x = JStr c)"
  by (simp add: iter_errors_Nil is_type_iff)

lemma enum_schema_ok:
  "iter_errors [K_type T_string, K_enum es] x = [] \<longleftrightarrow> (\<exists>c. x = JStr c \<and> c \<in> set es)"
  by (auto simp: iter_errors_Nil is_type_iff)

lemma integer_schema_ok:
  "iter_errors [K_type T_integer, K_minimum m] x = [] \<longleftrightarrow> (\<exists>i. x = JInt i \<and> m \<le> i)"
  by (auto simp: iter_errors_Nil is_type_iff split: if_splits)

lemma properties_ok:
  "keyword_errors s (K_properties props) (JObj kvs) = [] \<longleftrightarrow>
     (\<forall>(k, sub) \<in> set props. \<forall>c. map_of kvs k = Some c \<longrightarrow> iter_errors sub c = [])"
  by (auto simp: descend_Nil split: option.splits)

lemma required_ok:
  "keyword_errors s (K_required req) (JObj kvs) = [] \<longleftrightarrow> set req \<subseteq> fst ` set kvs"
  by (auto simp: filter_empty_conv map_of_None_iff)

lemma additional_ok:
  "keyword_errors s (K_additionalProperties False) (JObj kvs) = [] \<longleftrightarrow>
     fst ` set kvs \<subseteq> fst ` set (schema_properties s)"
  by (auto simp: find_additional_properties_def filter_empty_conv Let_def)


lemma object_schema_ok:
  "iter_errors [K_type T_object, K_properties props, K_required req, K_additionalProperties False] x = []
   \<longleftrightarrow> (\<exists>kvs. x = JObj kvs
         \<and> (\<forall>(k, sub) \<in> set props. \<forall>c. map_of kvs k = Some c \<longrightarrow> iter_errors sub c = [])
         \<and> set req \<subseteq> fst ` set kvs
         \<and> fst ` set kvs \<subseteq> fst ` set props)"
proof (cases x)
  case (JObj kvs)
  have "keyword_errors s (K_type T_object) (JObj kvs) = []" for s
    by simp
  then show ?thesis
    unfolding JObj
    by (subst iter_errors_Nil)
       (simp add: properties_ok required_ok additional_ok del: keyword_errors.simps)
qed (simp_all add: iter_errors_Nil)

lemma items_ok:
  "keyword_errors s (K_items sub) (JArr xs) = [] \<longleftrightarrow> (\<forall>y \<in> set xs. iter_errors sub y = [])"
proof -
  have "keyword_errors s (K_items sub) (JArr xs) = []
          \<longleftrightarrow> (\<forall>i < length xs. iter_errors sub (xs ! i) = [])"
    by (auto simp: descend_Nil)
  then show ?thesis
    by (simp add: all_set_conv_all_nth)
qed

lemma array_schema_ok:
  "iter_errors [K_type T_array, K_items sub, K_minItems m] x = []
   \<longleftrightarrow> (\<exists>xs. x = JArr xs \<and> (\<forall>y \<in> set xs. iter_errors sub y = []) \<and> m \<le> length xs)"
proof (cases x)
  case (JArr xs)
  have "keyword_errors s (K_type T_array) (JArr xs) = []"
       "keyword_errors s (K_minItems m) (JArr xs) = [] \<longleftrightarrow> m \<le> length xs" for s
    by auto
  then show ?thesis
    unfolding JArr
    by (subst iter_errors_Nil) (simp add: items_ok del: keyword_errors.simps)
qed (simp_all add: iter_errors_Nil)


lemma key_present: "k \<in> fst ` set kvs \<Longrightarrow> \<exists>c. map_of kvs k = Some c"
  using map_of_eq_None_iff [of kvs k] by (cases "map_of kvs k") auto

lemma msgs_shape:
  assumes "iter_errors msgs_schema d = []"
  obtains kvs c where "d = JObj kvs" "map_of kvs ''main_window_caption'' = Some (JStr c)"
    "fst ` set kvs \<subseteq> {''main_window_caption''}"
proof -
  from assms obtain kvs where d: "d = JObj kvs"
    and p: "\<forall>c. map_of kvs ''main_window_caption'' = Some c \<longrightarrow> iter_errors [K_type T_string] c = []"
    and r: "''main_window_caption'' \<in> fst ` set kvs"
    and a: "fst ` set kvs \<subseteq> {''main_window_caption''}"
    unfolding msgs_schema_def object_schema_ok by auto
  from key_present [OF r] obtain x where x: "map_of kvs ''main_window_caption'' = Some x"
    by blast
  with p have "iter_errors [K_type T_string] x = []" by blast
  then obtain c where "x = JStr c" unfolding string_schema_ok by blast
  with d x a show thesis using that by blast
qed

lemma object_schemaD:
  assumes "iter_errors [K_type T_object, K_properties props, K_required req,
                        K_additionalProperties False] x = []"
  shows "\<exists>kvs. x = JObj kvs
    \<and> (\<forall>k sub c. (k, sub) \<in> set props \<longrightarrow> map_of kvs k = Some c \<longrightarrow> iter_errors sub c = [])
    \<and> (\<forall>k. k \<in> set req \<longrightarrow> (\<exists>c. map_of kvs k = Some c))
    \<and> fst ` set kvs \<subseteq> fst ` set props"
proof -
  from assms obtain kvs where x: "x = JObj kvs"
    and p: "\<forall>(k, sub) \<in> set props. \<forall>c. map_of kvs k = Some c \<longrightarrow> iter_errors sub c = []"
    and r: "set req \<subseteq> fst ` set kvs"
    and a: "fst ` set kvs \<subseteq> fst ` set props"
    unfolding object_schema_ok by blast
  have P: "\<forall>k sub c. (k, sub) \<in> set props \<longrightarrow> map_of kvs k = Some c \<longrightarrow> iter_errors sub c = []"
    using p by blast
  have R: "\<forall>k. k \<in> set req \<longrightarrow> (\<exists>c. map_of kvs k = Some c)"
  proof (intro allI impI)
    fix k assume "k \<in> set req"
    with r have "k \<in> fst ` set kvs" by (rule subsetD)
    then show "\<exists>c. map_of kvs k = Some c" by (rule key_present)
  qed
  from x P R a have "x = JObj kvs
    \<and> (\<forall>k sub c. (k, sub) \<in> set props \<longrightarrow> map_of kvs k = Some c \<longrightarrow> iter_errors sub c = [])
    \<and> (\<forall>k. k \<in> set req \<longrightarrow> (\<exists>c. map_of kvs k = Some c))
    \<and> fst ` set kvs \<subseteq> fst ` set props"
    by (intro conjI)
  then show ?thesis by (rule exI)
qed

lemma props_shape:
  assumes "iter_errors props_schema d = []"
  obtains kvs rkvs fkvs h s f m where
    "d = JObj kvs"
    "map_of kvs ''rows'' = Some (JObj rkvs)"
    "map_of rkvs ''height'' = Some (JInt h)" "1 \<le> h"
    "map_of rkvs ''spacing'' = Some (JInt s)" "1 \<le> s"
    "\<forall>c. map_of rkvs ''critical_value_size'' = Some c \<longrightarrow> (\<exists>i. c = JInt i \<and> 1 \<le> i)"
    "map_of kvs ''font'' = Some (JObj fkvs)"
    "map_of fkvs ''size'' = Some (JInt f)" "1 \<le> f"
    "map_of kvs ''mode'' = Some (JStr m)" "m \<in> {''columns'', ''rows''}"
proof -
  let ?int = "[K_type T_integer, K_minimum 1]"
  let ?rp = "[(''height'', ?int), (''spacing'', ?int), (''critical_value_size'', ?int)]"
  let ?rows = "[K_type T_object, K_properties ?rp, K_required [''height'', ''spacing''],
                K_additionalProperties False]"
  let ?fp = "[(''size'', ?int)]"
  let ?font = "[K_type T_object, K_properties ?fp, K_required [''size''],
                K_additionalProperties False]"
  let ?mode = "[K_type T_string, K_enum [''columns'', ''rows'']]"
  let ?pp = "[(''rows'', ?rows), (''font'', ?font), (''mode'', ?mode)]"
  from assms have "iter_errors [K_type T_object, K_properties ?pp,
       K_required [''rows'', ''font'', ''mode''], K_additionalProperties False] d = []"
    by (simp only: props_schema_def)
  from object_schemaD [OF this] obtain kvs where d: "d = JObj kvs"
    and p: "\<forall>k sub c. (k, sub) \<in> set ?pp \<longrightarrow> map_of kvs k = Some c \<longrightarrow> iter_errors sub c = []"
    and r: "\<forall>k. k \<in> set [''rows'', ''font'', ''mode''] \<longrightarrow> (\<exists>c. map_of kvs k = Some c)"
    and a: "fst ` set kvs \<subseteq> fst ` set ?pp"
    by blast
  from r have "\<exists>c. map_of kvs ''rows'' = Some c" by simp
  then obtain rv where rv: "map_of kvs ''rows'' = Some rv" by blast
  from r have "\<exists>c. map_of kvs ''font'' = Some c" by simp
  then obtain fv where fv: "map_of kvs ''font'' = Some fv" by blast
  from r have "\<exists>c. map_of kvs ''mode'' = Some c" by simp
  then obtain mv where mv: "map_of kvs ''mode'' = Some mv" by blast
  have "iter_errors ?rows rv = []" using p rv by simp
  from object_schemaD [OF this] obtain rkvs where rd: "rv = JObj rkvs"
    and rp: "\<forall>k sub c. (k, sub) \<in> set ?rp \<longrightarrow> map_of rkvs k = Some c \<longrightarrow> iter_errors sub c = []"
    and rr: "\<forall>k. k \<in> set [''height'', ''spacing''] \<longrightarrow> (\<exists>c. map_of rkvs k = Some c)"
    and ra: "fst ` set rkvs \<subseteq> fst ` set ?rp"
    by blast
  from rr have "\<exists>c. map_of rkvs ''height'' = Some c" by simp
  then obtain hv where hv: "map_of rkvs ''height'' = Some hv" by blast
  from rr have "\<exists>c. map_of rkvs ''spacing'' = Some c" by simp
  then obtain sv where sv: "map_of rkvs ''spacing'' = Some sv" by blast
  have "iter_errors ?int hv = []" using rp hv by simp
  then obtain h where h: "hv = JInt h" "1 \<le> h" unfolding integer_schema_ok by blast
  have "iter_errors ?int sv = []" using rp sv by simp
  then obtain s where s: "sv = JInt s" "1 \<le> s" unfolding integer_schema_ok by blast
  have c: "\<forall>c. map_of rkvs ''critical_value_size'' = Some c \<longrightarrow> (\<exists>i. c = JInt i \<and> 1 \<le> i)"
  proof (intro allI impI)
    fix c assume "map_of rkvs ''critical_value_size'' = Some c"
    then have "iter_errors ?int c = []" using rp by simp
    then show "\<exists>i. c = JInt i \<and> 1 \<le> i" unfolding integer_schema_ok .
  qed
  have "iter_errors ?font fv = []" using p fv by simp
  from object_schemaD [OF this] obtain fkvs where fd: "fv = JObj fkvs"
    and fp: "\<forall>k sub c. (k, sub) \<in> set ?fp \<longrightarrow> map_of fkvs k = Some c \<longrightarrow> iter_errors sub c = []"
    and fr: "\<forall>k. k \<in> set [''size''] \<longrightarrow> (\<exists>c. map_of fkvs k = Some c)"
    and fa: "fst ` set fkvs \<subseteq> fst ` set ?fp"
    by blast
  from fr have "\<exists>c. map_of fkvs ''size'' = Some c" by simp
  then obtain zv where zv: "map_of fkvs ''size'' = Some zv" by blast
  have "iter_errors ?int zv = []" using fp zv by simp
  then obtain f where f: "zv = JInt f" "1 \<le> f" unfolding integer_schema_ok by blast
  have "iter_errors ?mode mv = []" using p mv by simp
  then obtain m where m: "mv = JStr m" "m \<in> set [''columns'', ''rows'']"
    unfolding enum_schema_ok by blast
  from m(2) have m': "m \<in> {''columns'', ''rows''}" by simp
  show thesis
    using that [of kvs rkvs h s fkvs f m] d rv rd hv h sv s c fv fd zv f mv m(1) m' by simp
qed

lemma data_schema_nested: "data_schema = [K_type T_array, K_items group_schema, K_minItems 1]"
  by (simp add: data_schema_def group_schema_def item_schema_def)

lemma item_shape:
  assumes "iter_errors item_schema y = []"
  obtains kvs a b where "y = JObj kvs" "map_of kvs ''name'' = Some (JStr a)"
    "map_of kvs ''value'' = Some (JStr b)" "fst ` set kvs \<subseteq> {''name'', ''value''}"
proof -
  let ?pp = "[(''name'', [K_type T_string]), (''value'', [K_type T_string])]"
  from assms have "iter_errors [K_type T_object, K_properties ?pp,
       K_required [''name'', ''value''], K_additionalProperties False] y = []"
    by (simp only: item_schema_def)
  from object_schemaD [OF this] obtain kvs where d: "y = JObj kvs"
    and p: "\<forall>k sub c. (k, sub) \<in> set ?pp \<longrightarrow> map_of kvs k = Some c \<longrightarrow> iter_errors sub c = []"
    and r: "\<forall>k. k \<in> set [''name'', ''value''] \<longrightarrow> (\<exists>c. map_of kvs k = Some c)"
    and a: "fst ` set kvs \<subseteq> fst ` set ?pp"
    by blast
  from r have "\<exists>c. map_of kvs ''name'' = Some c" by simp
  then obtain nv where nv: "map_of kvs ''name'' = Some nv" by blast
  from r have "\<exists>c. map_of kvs ''value'' = Some c" by simp
  then obtain vv where vv: "map_of kvs ''value'' = Some vv" by blast
  have "iter_errors [K_type T_string] nv = []" using p nv by simp
  then obtain x where x: "nv = JStr x" unfolding string_schema_ok by blast
  have "iter_errors [K_type T_string] vv = []" using p vv by simp
  then obtain z where z: "vv = JStr z" unfolding string_schema_ok by blast
  from a have a': "fst ` set kvs \<subseteq> {''name'', ''value''}" by simp
  show thesis using that [of kvs x z] d nv x vv z a' by simp
qed

lemma group_shape:
  assumes "iter_errors group_schema g = []"
  obtains kvs nm items where "g = JObj kvs" "map_of kvs ''name'' = Some (JStr nm)"
    "map_of kvs ''data'' = Some (JArr items)" "items \<noteq> []"
    "\<forall>y \<in> set items. iter_errors item_schema y = []"
    "fst ` set kvs = {''name'', ''data''}"
proof -
  let ?ds = "[K_type T_array, K_items item_schema, K_minItems 1]"
  let ?pp = "[(''name'', [K_type T_string]), (''data'', ?ds)]"
  from assms have "iter_errors [K_type T_object, K_properties ?pp,
       K_required [''name'', ''data''], K_additionalProperties False] g = []"
    by (simp only: group_schema_def)
  from object_schemaD [OF this] obtain kvs where d: "g = JObj kvs"
    and p: "\<forall>k sub c. (k, sub) \<in> set ?pp \<longrightarrow> map_of kvs k = Some c \<longrightarrow> iter_errors sub c = []"
    and r: "\<forall>k. k \<in> set [''name'', ''data''] \<longrightarrow> (\<exists>c. map_of kvs k = Some c)"
    and a: "fst ` set kvs \<subseteq> fst ` set ?pp"
    by blast
  from r have "\<exists>c. map_of kvs ''name'' = Some c" by simp
  then obtain nv where nv: "map_of kvs ''name'' = Some nv" by blast
  from r have "\<exists>c. map_of kvs ''data'' = Some c" by simp
  then obtain dv where dv: "map_of kvs ''data'' = Some dv" by blast
  have "iter_errors [K_type T_string] nv = []" using p nv by simp
  then obtain x where x: "nv = JStr x" unfolding string_schema_ok by blast
  have "iter_errors ?ds dv = []" using p dv by simp
  then obtain items where i: "dv = JArr items" "\<forall>y \<in> set items. iter_errors item_schema y = []"
    "1 \<le> length items"
    unfolding array_schema_ok by blast
  from i(3) have ne: "items \<noteq> []" by auto
  from nv have "''name'' \<in> fst ` set kvs" by (metis map_of_eq_None_iff option.distinct(1))
  moreover from dv have "''data'' \<in> fst ` set kvs" by (metis map_of_eq_None_iff option.distinct(1))
  moreover from a have "fst ` set kvs \<subseteq> {''name'', ''data''}" by simp
  ultimately have k: "fst ` set kvs = {''name'', ''data''}" by blast
  show thesis using that [of kvs x items] d nv x dv i(1,2) ne k by simp
qed

lemma data_shape:
  assumes "iter_errors data_schema d = []"
  obtains gs where "d = JArr gs" "gs \<noteq> []" "\<forall>g \<in> set gs. iter_errors group_schema g = []"
proof -
  from assms obtain gs where "d = JArr gs" "\<forall>g \<in> set gs. iter_errors group_schema g = []"
    "1 \<le> length gs"
    unfolding data_schema_nested array_schema_ok by blast
  moreover from this have "gs \<noteq> []" by auto
  ultimately show thesis using that by blast
qed

lemma list_getitem_nonneg:
  "0 \<le> i \<Longrightarrow> nat i < length xs \<Longrightarrow> list_getitem xs i = Inr (xs ! nat i)"
  by (auto simp: list_getitem_def Let_def)

lemma list_getitem_over:
  "int (length xs) \<le> i \<Longrightarrow> list_getitem xs i = Inl IndexError"
  by (auto simp: list_getitem_def Let_def)

lemma list_getitem_neg:
  assumes "1 \<le> k" and "k \<le> int (length xs)"
  shows "list_getitem xs (- k) = Inr (rev xs ! (nat k - 1))"
proof -
  have "nat k - 1 < length xs" using assms by linarith
  then have "rev xs ! (nat k - 1) = xs ! (length xs - Suc (nat k - 1))"
    by (rule rev_nth)
  moreover have "length xs - Suc (nat k - 1) = nat (- k + int (length xs))"
    using assms by linarith
  ultimately show ?thesis
    using assms by (simp add: list_getitem_def Let_def)
qed

lemma resolve_index:
  "resolve (JArr xs) (Index i # p) = Some y \<longleftrightarrow>
     0 \<le> i \<and> nat i < length xs \<and> resolve (xs ! nat i) p = Some y"
  by auto

lemma resolve_key:
  "resolve (JObj kvs) (Key k # p) = Some y \<longleftrightarrow>
     (\<exists>c. map_of kvs k = Some c \<and> resolve c p = Some y)"
  by (simp split: option.splits)

lemma props_roundtrip:
  assumes "jsonschema_validate msg d props_schema = None"
  shows "Properties_init (jsonschema_validate msg) d = Inr (Properties d)
       \<and> (\<exists>h s f m.
             row_height (Properties d) = Inr (JInt h)
           \<and> resolve d [Key ''rows'', Key ''height''] = Some (JInt h)
           \<and> rows_spacing (Properties d) = Inr (JInt s)
           \<and> resolve d [Key ''rows'', Key ''spacing''] = Some (JInt s)
           \<and> font_size (Properties d) = Inr (JInt f)
           \<and> resolve d [Key ''font'', Key ''size''] = Some (JInt f)
           \<and> mode (Properties d) = Inr (JStr m)
           \<and> resolve d [Key ''mode''] = Some (JStr m))"
proof -
  from assms have "iter_errors props_schema d = []"
    by (simp add: validate_None_iff)
  then obtain kvs rkvs fkvs h s f m where
    "d = JObj kvs"
    "map_of kvs ''rows'' = Some (JObj rkvs)"
    "map_of rkvs ''height'' = Some (JInt h)"
    "map_of rkvs ''spacing'' = Some (JInt s)"
    "map_of kvs ''font'' = Some (JObj fkvs)"
    "map_of fkvs ''size'' = Some (JInt f)"
    "map_of kvs ''mode'' = Some (JStr m)"
    by (rule props_shape)
  then have "row_height (Properties d) = Inr (JInt h)
           \<and> resolve d [Key ''rows'', Key ''height''] = Some (JInt h)
           \<and> rows_spacing (Properties d) = Inr (JInt s)
           \<and> resolve d [Key ''rows'', Key ''spacing''] = Some (JInt s)
           \<and> font_size (Properties d) = Inr (JInt f)
           \<and> resolve d [Key ''font'', Key ''size''] = Some (JInt f)
           \<and> mode (Properties d) = Inr (JStr m)
           \<and> resolve d [Key ''mode''] = Some (JStr m)"
    by (simp add: row_height_def rows_spacing_def font_size_def mode_def)
  moreover from assms have "Properties_init (jsonschema_validate msg) d = Inr (Properties d)"
    by (simp add: Properties_init_def parse_json_def)
  ultimately show ?thesis by blast
qed

lemma msgs_roundtrip:
  assumes "jsonschema_validate msg d msgs_schema = None"
  shows "Messages_init (jsonschema_validate msg) d = Inr (Messages d)
       \<and> (\<exists>c. main_window_caption (Messages d) = Inr (JStr c)
             \<and> Messages_getitem (Messages d) ''main_window_caption'' = Inr (JStr c)
             \<and> resolve d [Key ''main_window_caption''] = Some (JStr c))"
proof -
  from assms have "iter_errors msgs_schema d = []"
    by (simp add: validate_None_iff)
  then obtain kvs c where "d = JObj kvs" "map_of kvs ''main_window_caption'' = Some (JStr c)"
    by (rule msgs_shape)
  then have "main_window_caption (Messages d) = Inr (JStr c)
             \<and> Messages_getitem (Messages d) ''main_window_caption'' = Inr (JStr c)
             \<and> resolve d [Key ''main_window_caption''] = Some (JStr c)"
    by (simp add: main_window_caption_def Messages_getitem_def)
  moreover from assms have "Messages_init (jsonschema_validate msg) d = Inr (Messages d)"
    by (simp add: Messages_init_def parse_json_def)
  ultimately show ?thesis by blast
qed


lemma resolve_append:
  "resolve d (p @ q) = (case resolve d p of None \<Rightarrow> None | Some n \<Rightarrow> resolve n q)"
  by (induction d p rule: resolve.induct) (auto split: option.splits)

lemma resolve_below:
  "resolve d p = Some n \<Longrightarrow> resolve d (p @ q) = resolve n q"
  by (simp add: resolve_append)

lemma valid_data_group:
  assumes "iter_errors data_schema d = []" and "resolve d [Index i] = Some g"
  obtains gs where "d = JArr gs" "0 \<le> i" "nat i < length gs" "g = gs ! nat i"
    "iter_errors group_schema g = []"
proof -
  from assms(1) obtain gs where d: "d = JArr gs"
    and gs: "\<forall>g \<in> set gs. iter_errors group_schema g = []"
    by (rule data_shape)
  from assms(2) d have i: "0 \<le> i" "nat i < length gs" "g = gs ! nat i"
    by (auto split: if_splits)
  then have "g \<in> set gs" by simp
  with gs have "iter_errors group_schema g = []" by blast
  with d i show thesis using that by blast
qed

lemma valid_group_item:
  assumes "iter_errors group_schema g = []" and "resolve g [Key ''data'', Index j] = Some y"
  obtains kvs items where "g = JObj kvs" "map_of kvs ''data'' = Some (JArr items)"
    "0 \<le> j" "nat j < length items" "y = items ! nat j" "iter_errors item_schema y = []"
proof -
  from assms(1) obtain kvs nm items where g: "g = JObj kvs"
    and items: "map_of kvs ''data'' = Some (JArr items)"
    and ok: "\<forall>y \<in> set items. iter_errors item_schema y = []"
    by (rule group_shape)
  from assms(2) g items have j: "0 \<le> j" "nat j < length items" "y = items ! nat j"
    by (auto split: if_splits)
  then have "y \<in> set items" by simp
  with ok have "iter_errors item_schema y = []" by blast
  with g items j show thesis using that by blast
qed

lemma item_roundtrip:
  assumes "iter_errors item_schema y = []"
  shows "\<exists>a b. DataItem_name (DataItem y) = Inr (JStr a) \<and> resolve y [Key ''name''] = Some (JStr a)
             \<and> DataItem_value (DataItem y) = Inr (JStr b) \<and> resolve y [Key ''value''] = Some (JStr b)"
proof -
  from assms obtain kvs a b where "y = JObj kvs" "map_of kvs ''name'' = Some (JStr a)"
    "map_of kvs ''value'' = Some (JStr b)"
    by (rule item_shape)
  then have "DataItem_name (DataItem y) = Inr (JStr a) \<and> resolve y [Key ''name''] = Some (JStr a)
             \<and> DataItem_value (DataItem y) = Inr (JStr b) \<and> resolve y [Key ''value''] = Some (JStr b)"
    by (simp add: DataItem_name_def DataItem_value_def)
  then show ?thesis by blast
qed

lemma group_roundtrip:
  assumes "iter_errors group_schema g = []"
  shows "(\<exists>nm. DataGroup_name (DataGroup g) = Inr (JStr nm) \<and> resolve g [Key ''name''] = Some (JStr nm))
       \<and> (\<forall>j y. resolve g [Key ''data'', Index j] = Some y \<longrightarrow>
              DataGroup_getitem (DataGroup g) j = Inr (DataItem y)
            \<and> (\<exists>a b. DataItem_name (DataItem y) = Inr (JStr a)
                    \<and> resolve g [Key ''data'', Index j, Key ''name''] = Some (JStr a)
                    \<and> DataItem_value (DataItem y) = Inr (JStr b)
                    \<and> resolve g [Key ''data'', Index j, Key ''value''] = Some (JStr b)))"
proof (intro conjI allI impI)
  from assms obtain kvs nm where "g = JObj kvs" "map_of kvs ''name'' = Some (JStr nm)"
    by (rule group_shape)
  then have "DataGroup_name (DataGroup g) = Inr (JStr nm) \<and> resolve g [Key ''name''] = Some (JStr nm)"
    by (simp add: DataGroup_name_def)
  then show "\<exists>nm. DataGroup_name (DataGroup g) = Inr (JStr nm) \<and> resolve g [Key ''name''] = Some (JStr nm)"
    by blast
next
  fix j y assume r: "resolve g [Key ''data'', Index j] = Some y"
  from assms r obtain kvs items where g: "g = JObj kvs" "map_of kvs ''data'' = Some (JArr items)"
    and j: "0 \<le> j" "nat j < length items" "y = items ! nat j"
    and ok: "iter_errors item_schema y = []"
    by (rule valid_group_item)
  from g j show "DataGroup_getitem (DataGroup g) j = Inr (DataItem y)"
    by (simp add: DataGroup_getitem_def list_getitem_nonneg)
  from item_roundtrip [OF ok] obtain a b where
    ab: "DataItem_name (DataItem y) = Inr (JStr a)" "resolve y [Key ''name''] = Some (JStr a)"
        "DataItem_value (DataItem y) = Inr (JStr b)" "resolve y [Key ''value''] = Some (JStr b)"
    by blast
  from resolve_below [OF r, of "[Key ''name'']"] ab(2)
  have "resolve g [Key ''data'', Index j, Key ''name''] = Some (JStr a)" by simp
  moreover from resolve_below [OF r, of "[Key ''value'']"] ab(4)
  have "resolve g [Key ''data'', Index j, Key ''value''] = Some (JStr b)" by simp
  ultimately show "\<exists>a b. DataItem_name (DataItem y) = Inr (JStr a)
                    \<and> resolve g [Key ''data'', Index j, Key ''name''] = Some (JStr a)
                    \<and> DataItem_value (DataItem y) = Inr (JStr b)
                    \<and> resolve g [Key ''data'', Index j, Key ''value''] = Some (JStr b)"
    using ab(1,3) by blast
qed

lemma data_roundtrip:
  assumes "jsonschema_validate msg d data_schema = None"
  shows "Data_init (jsonschema_validate msg) d = Inr (Data d)
       \<and> (\<exists>gs. d = JArr gs \<and> Data_len (Data d) = Inr (length gs))
       \<and> (\<forall>i g. resolve d [Index i] = Some g \<longrightarrow>
              Data_getitem (Data d) i = Inr (DataGroup g)
            \<and> (\<exists>nm. DataGroup_name (DataGroup g) = Inr (JStr nm)
                   \<and> resolve d [Index i, Key ''name''] = Some (JStr nm))
            \<and> (\<forall>j y. resolve d [Index i, Key ''data'', Index j] = Some y \<longrightarrow>
                   DataGroup_getitem (DataGroup g) j = Inr (DataItem y)
                 \<and> (\<exists>a b. DataItem_name (DataItem y) = Inr (JStr a)
                         \<and> resolve d [Index i, Key ''data'', Index j, Key ''name''] = Some (JStr a)
                         \<and> DataItem_value (DataItem y) = Inr (JStr b)
                         \<and> resolve d [Index i, Key ''data'', Index j, Key ''value''] = Some (JStr b))))"
proof (intro conjI allI impI)
  from assms show "Data_init (jsonschema_validate msg) d = Inr (Data d)"
    by (simp add: Data_init_def parse_json_def)
next
  from assms have v: "iter_errors data_schema d = []"
    by (simp add: validate_None_iff)
  then obtain gs where "d = JArr gs" by (rule data_shape)
  then show "\<exists>gs. d = JArr gs \<and> Data_len (Data d) = Inr (length gs)"
    by (simp add: Data_len_def)
  fix i g assume r: "resolve d [Index i] = Some g"
  from v r obtain gs where d: "d = JArr gs" and i: "0 \<le> i" "nat i < length gs" "g = gs ! nat i"
    and ok: "iter_errors group_schema g = []"
    by (rule valid_data_group)
  from d i show "Data_getitem (Data d) i = Inr (DataGroup g)"
    by (simp add: Data_getitem_def list_getitem_nonneg)
  note below = resolve_below [OF r, simplified]
  from group_roundtrip [OF ok]
  show "\<exists>nm. DataGroup_name (DataGroup g) = Inr (JStr nm)
                   \<and> resolve d [Index i, Key ''name''] = Some (JStr nm)"
    by (simp add: below)
  fix j y assume "resolve d [Index i, Key ''data'', Index j] = Some y"
  then have "resolve g [Key ''data'', Index j] = Some y"
    by (simp add: below)
  with group_roundtrip [OF ok]
  show "DataGroup_getitem (DataGroup g) j = Inr (DataItem y)"
   and "\<exists>a b. DataItem_name (DataItem y) = Inr (JStr a)
                         \<and> resolve d [Index i, Key ''data'', Index j, Key ''name''] = Some (JStr a)
                         \<and> DataItem_value (DataItem y) = Inr (JStr b)
                         \<and> resolve d [Index i, Key ''data'', Index j, Key ''value''] = Some (JStr b)"
    by (simp_all add: below)
qed

section \<open>Accessors on validated documents\<close>

text \<open>
  C2. Round trip. For a document that satisfies its schema the constructor succeeds and
  keeps the document as it is, and each accessor returns the field of the input that it
  is named after: for Properties the integers at \<open>rows.height\<close>, \<open>rows.spacing\<close>,
  \<open>font.size\<close> and the string at \<open>mode\<close>; for Messages the caption, by name and by key;
  for Data the number of groups as its length, under each index the group of the input,
  its name, and under each index of the group the item of the input with its name and
  value strings.
\<close>

theorem roundtrip_identity:
  "(jsonschema_validate msg d props_schema = None \<longrightarrow>
      Properties_init (jsonschema_validate msg) d = Inr (Properties d)
    \<and> (\<exists>h s f m.
          row_height (Properties d) = Inr (JInt h)
        \<and> resolve d [Key ''rows'', Key ''height''] = Some (JInt h)
        \<and> rows_spacing (Properties d) = Inr (JInt s)
        \<and> resolve d [Key ''rows'', Key ''spacing''] = Some (JInt s)
        \<and> font_size (Properties d) = Inr (JInt f)
        \<and> resolve d [Key ''font'', Key ''size''] = Some (JInt f)
        \<and> mode (Properties d) = Inr (JStr m)
        \<and> resolve d [Key ''mode''] = Some (JStr m)))
 \<and> (jsonschema_validate msg d msgs_schema = None \<longrightarrow>
      Messages_init (jsonschema_validate msg) d = Inr (Messages d)
    \<and> (\<exists>c. main_window_caption (Messages d) = Inr (JStr c)
          \<and> Messages_getitem (Messages d) ''main_window_caption'' = Inr (JStr c)
          \<and> resolve d [Key ''main_window_caption''] = Some (JStr c)))
 \<and> (jsonschema_validate msg d data_schema = None \<longrightarrow>
      Data_init (jsonschema_validate msg) d = Inr (Data d)
    \<and> (\<exists>gs. d = JArr gs \<and> Data_len (Data d) = Inr (length gs))
    \<and> (\<forall>i g. resolve d [Index i] = Some g \<longrightarrow>
           Data_getitem (Data d) i = Inr (DataGroup g)
         \<and> (\<exists>nm. DataGroup_name (DataGroup g) = Inr (JStr nm)
                \<and> resolve d [Index i, Key ''name''] = Some (JStr nm))
         \<and> (\<forall>j y. resolve d [Index i, Key ''data'', Index j] = Some y \<longrightarrow>
                DataGroup_getitem (DataGroup g) j = Inr (DataItem y)
              \<and> (\<exists>a b. DataItem_name (DataItem y) = Inr (JStr a)
                      \<and> resolve d [Index i, Key ''data'', Index j, Key ''name''] = Some (JStr a)
                      \<and> DataItem_value (DataItem y) = Inr (JStr b)
                      \<and> resolve d [Index i, Key ''data'', Index j, Key ''value''] = Some (JStr b)))))"
proof -
  note p = props_roundtrip [of msg d] and m = msgs_roundtrip [of msg d]
    and t = data_roundtrip [of msg d]
  show ?thesis
    apply (rule conjI)
     apply (rule impI)
     apply (erule p)
    apply (rule conjI)
     apply (rule impI)
     apply (erule m)
    apply (rule impI)
    apply (erule t)
    done
qed

theorem roundtrip_identity_witness:
  "Properties_init (jsonschema_validate violated_keyword)
     (JObj [(''rows'', JObj [(''height'', JInt 10), (''spacing'', JInt 2)]),
            (''font'', JObj [(''size'', JInt 12)]),
            (''mode'', JStr ''rows'')])
   = Inr (Properties
     (JObj [(''rows'', JObj [(''height'', JInt 10), (''spacing'', JInt 2)]),
            (''font'', JObj [(''size'', JInt 12)]),
            (''mode'', JStr ''rows'')]))
 \<and> row_height (Properties
     (JObj [(''rows'', JObj [(''height'', JInt 10), (''spacing'', JInt 2)]),
            (''font'', JObj [(''size'', JInt 12)]),
            (''mode'', JStr ''rows'')])) = Inr (JInt 10)
 \<and> rows_spacing (Properties
     (JObj [(''rows'', JObj [(''height'', JInt 10), (''spacing'', JInt 2)]),
            (''font'', JObj [(''size'', JInt 12)]),
            (''mode'', JStr ''rows'')])) = Inr (JInt 2)
 \<and> font_size (Properties
     (JObj [(''rows'', JObj [(''height'', JInt 10), (''spacing'', JInt 2)]),
            (''font'', JObj [(''size'', JInt 12)]),
            (''mode'', JStr ''rows'')])) = Inr (JInt 12)
 \<and> mode (Properties
     (JObj [(''rows'', JObj [(''height'', JInt 10), (''spacing'', JInt 2)]),
            (''font'', JObj [(''size'', JInt 12)]),
            (''mode'', JStr ''rows'')])) = Inr (JStr ''rows'')
 \<and> Messages_init (jsonschema_validate violated_keyword)
     (JObj [(''main_window_caption'', JStr ''Copy helper'')])
   = Inr (Messages (JObj [(''main_window_caption'', JStr ''Copy helper'')]))
 \<and> main_window_caption (Messages (JObj [(''main_window_caption'', JStr ''Copy helper'')]))
   = Inr (JStr ''Copy helper'')
 \<and> Data_init (jsonschema_validate violated_keyword)
     (JArr [JObj [(''name'', JStr ''g1''),
                  (''data'', JArr [JObj [(''name'', JStr ''a''), (''value'', JStr ''1'')]])]])
   = Inr (Data
     (JArr [JObj [(''name'', JStr ''g1''),
                  (''data'', JArr [JObj [(''name'', JStr ''a''), (''value'', JStr ''1'')]])]]))
 \<and> Data_len (Data
     (JArr [JObj [(''name'', JStr ''g1''),
                  (''data'', JArr [JObj [(''name'', JStr ''a''), (''value'', JStr ''1'')]])]]))
   = Inr 1
 \<and> Data_getitem (Data
     (JArr [JObj [(''name'', JStr ''g1''),
                  (''data'', JArr [JObj [(''name'', JStr ''a''), (''value'', JStr ''1'')]])]])) 0
   = Inr (DataGroup (JObj [(''name'', JStr ''g1''),
                  (''data'', JArr [JObj [(''name'', JStr ''a''), (''value'', JStr ''1'')]])]))
 \<and> DataGroup_name (DataGroup (JObj [(''name'', JStr ''g1''),
                  (''data'', JArr [JObj [(''name'', JStr ''a''), (''value'', JStr ''1'')]])]))
   = Inr (JStr ''g1'')
 \<and> DataGroup_getitem (DataGroup (JObj [(''name'', JStr ''g1''),
                  (''data'', JArr [JObj [(''name'', JStr ''a''), (''value'', JStr ''1'')]])])) 0
   = Inr (DataItem (JObj [(''name'', JStr ''a''), (''value'', JStr ''1'')]))
 \<and> DataItem_name (DataItem (JObj [(''name'', JStr ''a''), (''value'', JStr ''1'')])) = Inr (JStr ''a'')
 \<and> DataItem_value (DataItem (JObj [(''name'', JStr ''a''), (''value'', JStr ''1'')])) = Inr (JStr ''1'')"
proof -
  let ?m = "violated_keyword"
  let ?p = "JObj [(''rows'', JObj [(''height'', JInt 10), (''spacing'', JInt 2)]),
            (''font'', JObj [(''size'', JInt 12)]),
            (''mode'', JStr ''rows'')]"
  let ?c = "JObj [(''main_window_caption'', JStr ''Copy helper'')]"
  let ?i = "JObj [(''name'', JStr ''a''), (''value'', JStr ''1'')]"
  let ?g = "JObj [(''name'', JStr ''g1''), (''data'', JArr [?i])]"
  let ?d = "JArr [?g]"
  have vp: "jsonschema_validate ?m ?p props_schema = None" by code_simp
  have vc: "jsonschema_validate ?m ?c msgs_schema = None" by code_simp
  have vd: "jsonschema_validate ?m ?d data_schema = None" by code_simp
  have rg: "resolve ?d [Index 0] = Some ?g" by simp
  have ri: "resolve ?d [Index 0, Key ''data'', Index 0] = Some ?i" by simp
  have P: "Properties_init (jsonschema_validate ?m) ?p = Inr (Properties ?p)"
    using roundtrip_identity [of ?m ?p] vp by blast
  have C: "Messages_init (jsonschema_validate ?m) ?c = Inr (Messages ?c)"
    using roundtrip_identity [of ?m ?c] vc by blast
  have D: "Data_init (jsonschema_validate ?m) ?d = Inr (Data ?d)"
    using roundtrip_identity [of ?m ?d] vd by blast
  have G: "Data_getitem (Data ?d) 0 = Inr (DataGroup ?g)"
    using roundtrip_identity [of ?m ?d] vd rg by blast
  have I: "DataGroup_getitem (DataGroup ?g) 0 = Inr (DataItem ?i)"
    using roundtrip_identity [of ?m ?d] vd rg ri by blast
  have a: "row_height (Properties ?p) = Inr (JInt 10)"
          "rows_spacing (Properties ?p) = Inr (JInt 2)"
          "font_size (Properties ?p) = Inr (JInt 12)"
          "mode (Properties ?p) = Inr (JStr ''rows'')"
          "main_window_caption (Messages ?c) = Inr (JStr ''Copy helper'')"
          "Data_len (Data ?d) = Inr 1"
          "DataGroup_name (DataGroup ?g) = Inr (JStr ''g1'')"
          "DataItem_name (DataItem ?i) = Inr (JStr ''a'')"
          "DataItem_value (DataItem ?i) = Inr (JStr ''1'')"
    by (simp_all add: row_height_def rows_spacing_def font_size_def mode_def
          main_window_caption_def Messages_getitem_def Data_len_def DataGroup_name_def
          DataItem_name_def DataItem_value_def)
  from P C D G I a show ?thesis by (intro conjI)
qed

lemma rejected_if_violated:
  assumes "violated_at S d p v"
  shows "\<exists>text. parse_json (jsonschema_validate msg) d S = Inl (PropertiesError text)"
proof -
  from assms have "(v, p) \<in> set (iter_errors S d)"
    by (simp add: iter_errors_violated_at)
  then obtain e es where "iter_errors S d = e # es"
    by (cases "iter_errors S d") auto
  then have "\<exists>err. jsonschema_validate msg d S = Some err"
    by (cases e) (simp add: validate_first)
  then show ?thesis
    by (auto simp: parse_json_def)
qed

lemma dict_len_keys: "py_len (JObj kvs) = Inr (card (fst ` set kvs))"
proof -
  have "length (remdups (map fst kvs)) = card (set (map fst kvs))"
    by (rule length_remdups_card_conv)
  then show ?thesis by simp
qed

text \<open>
  C5. The length of a DataGroup is the number of keys of the dictionary behind it. For a
  group of a validated Data document that number is 2 (\<open>name\<close> and \<open>data\<close>), whatever the
  number of items; so the length differs from the item count whenever the group does not
  hold exactly two items.
\<close>

theorem group_len_is_record_size:
  assumes "jsonschema_validate msg d data_schema = None"
      and "resolve d [Index i] = Some g"
  shows "(\<exists>kvs. g = JObj kvs \<and> DataGroup_len (DataGroup g) = Inr (card (fst ` set kvs)))
       \<and> DataGroup_len (DataGroup g) = Inr 2
       \<and> (\<forall>items. resolve d [Index i, Key ''data''] = Some (JArr items) \<longrightarrow>
              length items \<noteq> 2 \<longrightarrow> DataGroup_len (DataGroup g) \<noteq> Inr (length items))"
proof -
  from assms(1) have "iter_errors data_schema d = []"
    by (simp add: validate_None_iff)
  from this assms(2) have "iter_errors group_schema g = []"
    by (rule valid_data_group)
  then obtain kvs where g: "g = JObj kvs" and k: "fst ` set kvs = {''name'', ''data''}"
    by (rule group_shape)
  have l: "DataGroup_len (DataGroup g) = Inr (card (fst ` set kvs))"
    by (simp only: DataGroup_len_def DataGroup.sel g dict_len_keys)
  have "card {''name'', ''data''} = 2" by simp
  with l k have "DataGroup_len (DataGroup g) = Inr 2" by simp
  with g l show ?thesis by auto
qed

theorem group_len_is_record_size_witness:
  "DataGroup_len (DataGroup (JObj [(''name'', JStr ''g1''),
       (''data'', JArr [JObj [(''name'', JStr ''a''), (''value'', JStr ''1'')],
                        JObj [(''name'', JStr ''b''), (''value'', JStr ''2'')],
                        JObj [(''name'', JStr ''c''), (''value'', JStr ''3'')]])])) = Inr 2
 \<and> DataGroup_len (DataGroup (JObj [(''name'', JStr ''g1''),
       (''data'', JArr [JObj [(''name'', JStr ''a''), (''value'', JStr ''1'')],
                        JObj [(''name'', JStr ''b''), (''value'', JStr ''2'')],
                        JObj [(''name'', JStr ''c''), (''value'', JStr ''3'')]])])) \<noteq> Inr 3"
proof -
  let ?items = "[JObj [(''name'', JStr ''a''), (''value'', JStr ''1'')],
                        JObj [(''name'', JStr ''b''), (''value'', JStr ''2'')],
                        JObj [(''name'', JStr ''c''), (''value'', JStr ''3'')]]"
  let ?g = "JObj [(''name'', JStr ''g1''), (''data'', JArr ?items)]"
  have v: "jsonschema_validate violated_keyword (JArr [?g]) data_schema = None" by code_simp
  have r: "resolve (JArr [?g]) [Index 0] = Some ?g" by simp
  have i: "resolve (JArr [?g]) [Index 0, Key ''data''] = Some (JArr ?items)" by simp
  have n: "length ?items \<noteq> 2" "length ?items = 3" by simp_all
  from group_len_is_record_size [OF v r] i n show ?thesis by metis
qed

lemma empty_items_violation:
  assumes "resolve d [Index i, Key ''data''] = Some (JArr [])"
  shows "violated_at data_schema d [Index i, Key ''data''] (Too_short (JArr []) 1)"
proof -
  have "[K_type T_array, K_items item_schema, K_minItems 1]
          \<in> set (schema_at data_schema [Index i, Key ''data''])"
    by (simp add: data_schema_nested group_schema_def)
  moreover have "rule_broken [K_type T_array, K_items item_schema, K_minItems 1] (JArr [])
                   (Too_short (JArr []) 1)"
    by simp
  ultimately show ?thesis
    using assms unfolding violated_at_def list_ex_iff by (simp only: option.case) blast
qed

text \<open>
  C7. Data is never empty. The constructor rejects the empty array, and it rejects every
  document that has a group whose \<open>data\<close> array is empty. So a Data that was constructed
  has a length of at least 1, and each of its groups holds at least one item.
\<close>

theorem data_nonempty:
  "(\<exists>text. Data_init (jsonschema_validate msg) (JArr []) = Inl (PropertiesError text))
 \<and> (\<forall>d i. resolve d [Index i, Key ''data''] = Some (JArr []) \<longrightarrow>
        (\<exists>text. Data_init (jsonschema_validate msg) d = Inl (PropertiesError text)))
 \<and> (\<forall>d self. Data_init (jsonschema_validate msg) d = Inr self \<longrightarrow>
        (\<exists>n. Data_len self = Inr n \<and> 1 \<le> n)
      \<and> (\<forall>i g. resolve d [Index i] = Some g \<longrightarrow>
             (\<exists>items. resolve d [Index i, Key ''data''] = Some (JArr items) \<and> items \<noteq> [])))"
proof (intro conjI allI impI)
  have "violated_at data_schema (JArr []) [] (Too_short (JArr []) 1)"
    by (simp add: violated_at_def data_schema_def)
  from rejected_if_violated [OF this, of msg]
  show "\<exists>text. Data_init (jsonschema_validate msg) (JArr []) = Inl (PropertiesError text)"
    by (auto simp: Data_init_def)
next
  fix d i assume "resolve d [Index i, Key ''data''] = Some (JArr [])"
  from rejected_if_violated [OF empty_items_violation [OF this], of msg]
  show "\<exists>text. Data_init (jsonschema_validate msg) d = Inl (PropertiesError text)"
    by (auto simp: Data_init_def)
next
  fix d self assume c: "Data_init (jsonschema_validate msg) d = Inr self"
  then have self: "self = Data d" and "jsonschema_validate msg d data_schema = None"
    by (auto simp: Data_init_def parse_json_def split: option.splits sum.splits)
  then have v: "iter_errors data_schema d = []"
    by (simp add: validate_None_iff)
  then obtain gs where "d = JArr gs" "gs \<noteq> []" by (rule data_shape)
  then have "Data_len self = Inr (length gs) \<and> 1 \<le> length gs"
    by (cases gs) (simp_all add: self Data_len_def)
  then show "\<exists>n. Data_len self = Inr n \<and> 1 \<le> n" by blast
  fix i g assume r: "resolve d [Index i] = Some g"
  from v r have "iter_errors group_schema g = []" by (rule valid_data_group)
  then obtain kvs items where "g = JObj kvs" "map_of kvs ''data'' = Some (JArr items)" "items \<noteq> []"
    by (rule group_shape)
  then have "resolve g [Key ''data''] = Some (JArr items) \<and> items \<noteq> []" by simp
  with resolve_below [OF r, of "[Key ''data'']"]
  show "\<exists>items. resolve d [Index i, Key ''data''] = Some (JArr items) \<and> items \<noteq> []"
    by simp
qed

theorem data_nonempty_witness:
  "(\<exists>text. Data_init (jsonschema_validate violated_keyword)
       (JArr [JObj [(''name'', JStr ''g1''), (''data'', JArr [])]]) = Inl (PropertiesError text))
 \<and> Data_len (Data (JArr [JObj [(''name'', JStr ''g1''),
        (''data'', JArr [JObj [(''name'', JStr ''a''), (''value'', JStr ''1'')]])]])) = Inr 1
 \<and> (\<exists>items. resolve (JArr [JObj [(''name'', JStr ''g1''),
        (''data'', JArr [JObj [(''name'', JStr ''a''), (''value'', JStr ''1'')]])]])
          [Index 0, Key ''data''] = Some (JArr items) \<and> items \<noteq> [])"
proof -
  let ?m = "violated_keyword"
  let ?e = "JArr [JObj [(''name'', JStr ''g1''), (''data'', JArr [])]]"
  let ?g = "JObj [(''name'', JStr ''g1''),
        (''data'', JArr [JObj [(''name'', JStr ''a''), (''value'', JStr ''1'')]])]"
  have r: "resolve ?e [Index 0, Key ''data''] = Some (JArr [])" by simp
  have c: "Data_init (jsonschema_validate ?m) (JArr [?g]) = Inr (Data (JArr [?g]))" by code_simp
  have g: "resolve (JArr [?g]) [Index 0] = Some ?g" by simp
  have l: "Data_len (Data (JArr [?g])) = Inr 1" by (simp add: Data_len_def)
  from data_nonempty [of ?m] r have
    "\<exists>text. Data_init (jsonschema_validate ?m) ?e = Inl (PropertiesError text)"
    by blast
  moreover from data_nonempty [of ?m] c g have
    "\<exists>items. resolve (JArr [?g]) [Index 0, Key ''data''] = Some (JArr items) \<and> items \<noteq> []"
    by blast
  ultimately show ?thesis using l by blast
qed

lemma plain_properties_valid:
  assumes "1 \<le> h" and "1 \<le> s" and "1 \<le> f" and "m \<in> {''columns'', ''rows''}"
  shows "iter_errors props_schema
           (JObj [(''rows'', JObj [(''height'', JInt h), (''spacing'', JInt s)]),
                  (''font'', JObj [(''size'', JInt f)]),
                  (''mode'', JStr m)]) = []"
  using assms
  by (auto simp: props_schema_def object_schema_ok integer_schema_ok enum_schema_ok)

text \<open>
  C8. \<open>rows.critical_value_size\<close> is optional. A document whose \<open>rows\<close> object has only
  \<open>height\<close> and \<open>spacing\<close> validates and the Properties constructor succeeds; on a
  validated document without the key the accessor raises KeyError for
  \<open>critical_value_size\<close>, and returns no default.
\<close>

theorem critical_value_size_optional:
  "(1 \<le> h \<and> 1 \<le> s \<and> 1 \<le> f \<and> m \<in> {''columns'', ''rows''} \<longrightarrow>
      Properties_init (jsonschema_validate msg)
        (JObj [(''rows'', JObj [(''height'', JInt h), (''spacing'', JInt s)]),
               (''font'', JObj [(''size'', JInt f)]),
               (''mode'', JStr m)])
      = Inr (Properties
        (JObj [(''rows'', JObj [(''height'', JInt h), (''spacing'', JInt s)]),
               (''font'', JObj [(''size'', JInt f)]),
               (''mode'', JStr m)]))
    \<and> critical_value_size (Properties
        (JObj [(''rows'', JObj [(''height'', JInt h), (''spacing'', JInt s)]),
               (''font'', JObj [(''size'', JInt f)]),
               (''mode'', JStr m)]))
      = Inl (KeyError (JStr ''critical_value_size'')))
 \<and> (Properties_init (jsonschema_validate msg) d = Inr self
      \<and> resolve d [Key ''rows'', Key ''critical_value_size''] = None \<longrightarrow>
      critical_value_size self = Inl (KeyError (JStr ''critical_value_size'')))"
proof (intro conjI impI)
  let ?d = "JObj [(''rows'', JObj [(''height'', JInt h), (''spacing'', JInt s)]),
               (''font'', JObj [(''size'', JInt f)]),
               (''mode'', JStr m)]"
  assume "1 \<le> h \<and> 1 \<le> s \<and> 1 \<le> f \<and> m \<in> {''columns'', ''rows''}"
  then have "iter_errors props_schema ?d = []"
    using plain_properties_valid by blast
  then have "jsonschema_validate msg ?d props_schema = None"
    by (simp add: validate_None_iff)
  then show "Properties_init (jsonschema_validate msg) ?d = Inr (Properties ?d)"
    by (simp add: Properties_init_def parse_json_def)
  show "critical_value_size (Properties ?d) = Inl (KeyError (JStr ''critical_value_size''))"
    by (simp add: critical_value_size_def)
next
  assume a: "Properties_init (jsonschema_validate msg) d = Inr self
      \<and> resolve d [Key ''rows'', Key ''critical_value_size''] = None"
  then have self: "self = Properties d" and "jsonschema_validate msg d props_schema = None"
    by (auto simp: Properties_init_def parse_json_def split: option.splits sum.splits)
  then have "iter_errors props_schema d = []"
    by (simp add: validate_None_iff)
  then obtain kvs rkvs where "d = JObj kvs" "map_of kvs ''rows'' = Some (JObj rkvs)"
    by (rule props_shape)
  with a show "critical_value_size self = Inl (KeyError (JStr ''critical_value_size''))"
    by (simp add: self critical_value_size_def split: option.splits)
qed

theorem critical_value_size_optional_witness:
  "Properties_init (jsonschema_validate violated_keyword)
     (JObj [(''rows'', JObj [(''height'', JInt 10), (''spacing'', JInt 2)]),
            (''font'', JObj [(''size'', JInt 12)]),
            (''mode'', JStr ''rows'')])
   = Inr (Properties
     (JObj [(''rows'', JObj [(''height'', JInt 10), (''spacing'', JInt 2)]),
            (''font'', JObj [(''size'', JInt 12)]),
            (''mode'', JStr ''rows'')]))
 \<and> critical_value_size (Properties
     (JObj [(''rows'', JObj [(''height'', JInt 10), (''spacing'', JInt 2)]),
            (''font'', JObj [(''size'', JInt 12)]),
            (''mode'', JStr ''rows'')]))
   = Inl (KeyError (JStr ''critical_value_size''))
 \<and> critical_value_size (Properties
     (JObj [(''rows'', JObj [(''height'', JInt 10), (''spacing'', JInt 2),
                             (''critical_value_size'', JInt 4)]),
            (''font'', JObj [(''size'', JInt 12)]),
            (''mode'', JStr ''rows'')]))
   = Inr (JInt 4)"
proof -
  have "(1::int) \<le> 10 \<and> (1::int) \<le> 2 \<and> (1::int) \<le> 12 \<and> ''rows'' \<in> {''columns'', ''rows''}"
    by simp
  with critical_value_size_optional [of 10 2 12 "''rows''" violated_keyword]
  show ?thesis
    by (simp add: critical_value_size_def)
qed

text \<open>
  C10. Indexing has no bounds check of its own; it is the indexing of the Python list.
  On a validated Data with \<open>n\<close> groups an index \<open>\<ge> n\<close> raises IndexError (not
  PropertiesError) and \<open>-k\<close>, for \<open>1 \<le> k \<le> n\<close>, yields the \<open>k\<close>-th group from the end;
  likewise for each group and its items.
\<close>

theorem indexing_is_list_indexing:
  assumes "jsonschema_validate msg d data_schema = None"
  shows "\<exists>gs. d = JArr gs
      \<and> Data_len (Data d) = Inr (length gs)
      \<and> (\<forall>i. int (length gs) \<le> i \<longrightarrow> Data_getitem (Data d) i = Inl IndexError)
      \<and> (\<forall>k. 1 \<le> k \<and> k \<le> int (length gs) \<longrightarrow>
             Data_getitem (Data d) (- k) = Inr (DataGroup (rev gs ! (nat k - 1))))
      \<and> (\<forall>g \<in> set gs. \<exists>items. resolve g [Key ''data''] = Some (JArr items)
             \<and> (\<forall>j. int (length items) \<le> j \<longrightarrow>
                    DataGroup_getitem (DataGroup g) j = Inl IndexError)
             \<and> (\<forall>k. 1 \<le> k \<and> k \<le> int (length items) \<longrightarrow>
                    DataGroup_getitem (DataGroup g) (- k)
                      = Inr (DataItem (rev items ! (nat k - 1)))))"
proof -
  from assms have "iter_errors data_schema d = []"
    by (simp add: validate_None_iff)
  then obtain gs where d: "d = JArr gs"
    and ok: "\<forall>g \<in> set gs. iter_errors group_schema g = []"
    by (rule data_shape)
  have 1: "Data_len (Data d) = Inr (length gs)"
    by (simp add: d Data_len_def)
  have 2: "\<forall>i. int (length gs) \<le> i \<longrightarrow> Data_getitem (Data d) i = Inl IndexError"
    by (simp add: d Data_getitem_def list_getitem_over)
  have 3: "\<forall>k. 1 \<le> k \<and> k \<le> int (length gs) \<longrightarrow>
             Data_getitem (Data d) (- k) = Inr (DataGroup (rev gs ! (nat k - 1)))"
    by (simp add: d Data_getitem_def list_getitem_neg)
  have 4: "\<forall>g \<in> set gs. \<exists>items. resolve g [Key ''data''] = Some (JArr items)
             \<and> (\<forall>j. int (length items) \<le> j \<longrightarrow>
                    DataGroup_getitem (DataGroup g) j = Inl IndexError)
             \<and> (\<forall>k. 1 \<le> k \<and> k \<le> int (length items) \<longrightarrow>
                    DataGroup_getitem (DataGroup g) (- k)
                      = Inr (DataItem (rev items ! (nat k - 1))))"
  proof
    fix g assume "g \<in> set gs"
    with ok have "iter_errors group_schema g = []" by blast
    then obtain kvs items where g: "g = JObj kvs" "map_of kvs ''data'' = Some (JArr items)"
      by (rule group_shape)
    then have "resolve g [Key ''data''] = Some (JArr items)" by simp
    moreover have "\<forall>j. int (length items) \<le> j \<longrightarrow>
                    DataGroup_getitem (DataGroup g) j = Inl IndexError"
      by (simp add: g DataGroup_getitem_def list_getitem_over)
    moreover have "\<forall>k. 1 \<le> k \<and> k \<le> int (length items) \<longrightarrow>
                    DataGroup_getitem (DataGroup g) (- k)
                      = Inr (DataItem (rev items ! (nat k - 1)))"
      by (simp add: g DataGroup_getitem_def list_getitem_neg)
    ultimately show "\<exists>items. resolve g [Key ''data''] = Some (JArr items)
             \<and> (\<forall>j. int (length items) \<le> j \<longrightarrow>
                    DataGroup_getitem (DataGroup g) j = Inl IndexError)
             \<and> (\<forall>k. 1 \<le> k \<and> k \<le> int (length items) \<longrightarrow>
                    DataGroup_getitem (DataGroup g) (- k)
                      = Inr (DataItem (rev items ! (nat k - 1))))"
      by blast
  qed
  from d 1 2 3 4 show ?thesis by blast
qed

theorem indexing_is_list_indexing_witness:
  "Data_getitem (Data (JArr
      [JObj [(''name'', JStr ''g1''), (''data'', JArr [JObj [(''name'', JStr ''a''), (''value'', JStr ''1'')],
                                                       JObj [(''name'', JStr ''b''), (''value'', JStr ''2'')]])],
       JObj [(''name'', JStr ''g2''), (''data'', JArr [JObj [(''name'', JStr ''c''), (''value'', JStr ''3'')]])]])) 2
     = Inl IndexError
 \<and> Data_getitem (Data (JArr
      [JObj [(''name'', JStr ''g1''), (''data'', JArr [JObj [(''name'', JStr ''a''), (''value'', JStr ''1'')],
                                                       JObj [(''name'', JStr ''b''), (''value'', JStr ''2'')]])],
       JObj [(''name'', JStr ''g2''), (''data'', JArr [JObj [(''name'', JStr ''c''), (''value'', JStr ''3'')]])]])) (- 1)
     = Inr (DataGroup
         (JObj [(''name'', JStr ''g2''), (''data'', JArr [JObj [(''name'', JStr ''c''), (''value'', JStr ''3'')]])]))
 \<and> DataGroup_getitem (DataGroup
       (JObj [(''name'', JStr ''g1''), (''data'', JArr [JObj [(''name'', JStr ''a''), (''value'', JStr ''1'')],
                                                        JObj [(''name'', JStr ''b''), (''value'', JStr ''2'')]])])) 2
     = Inl IndexError
 \<and> DataGroup_getitem (DataGroup
       (JObj [(''name'', JStr ''g1''), (''data'', JArr [JObj [(''name'', JStr ''a''), (''value'', JStr ''1'')],
                                                        JObj [(''name'', JStr ''b''), (''value'', JStr ''2'')]])])) (- 2)
     = Inr (DataItem (JObj [(''name'', JStr ''a''), (''value'', JStr ''1'')]))"
proof -
  let ?a = "JObj [(''name'', JStr ''a''), (''value'', JStr ''1'')]"
  let ?b = "JObj [(''name'', JStr ''b''), (''value'', JStr ''2'')]"
  let ?c = "JObj [(''name'', JStr ''c''), (''value'', JStr ''3'')]"
  let ?g1 = "JObj [(''name'', JStr ''g1''), (''data'', JArr [?a, ?b])]"
  let ?g2 = "JObj [(''name'', JStr ''g2''), (''data'', JArr [?c])]"
  let ?d = "JArr [?g1, ?g2]"
  have v: "jsonschema_validate violated_keyword ?d data_schema = None" by code_simp
  from indexing_is_list_indexing [OF v] obtain gs where gs: "?d = JArr gs"
    and over: "\<forall>i. int (length gs) \<le> i \<longrightarrow> Data_getitem (Data ?d) i = Inl IndexError"
    and neg: "\<forall>k. 1 \<le> k \<and> k \<le> int (length gs) \<longrightarrow>
             Data_getitem (Data ?d) (- k) = Inr (DataGroup (rev gs ! (nat k - 1)))"
    and grp: "\<forall>g \<in> set gs. \<exists>items. resolve g [Key ''data''] = Some (JArr items)
             \<and> (\<forall>j. int (length items) \<le> j \<longrightarrow>
                    DataGroup_getitem (DataGroup g) j = Inl IndexError)
             \<and> (\<forall>k. 1 \<le> k \<and> k \<le> int (length items) \<longrightarrow>
                    DataGroup_getitem (DataGroup g) (- k)
                      = Inr (DataItem (rev items ! (nat k - 1))))"
    by blast
  from gs have gs': "gs = [?g1, ?g2]" by simp
  from over have A: "Data_getitem (Data ?d) 2 = Inl IndexError"
    by (simp add: gs')
  from neg [rule_format, of 1] have B: "Data_getitem (Data ?d) (- 1) = Inr (DataGroup ?g2)"
    by (simp add: gs')
  from grp have "\<exists>items. resolve ?g1 [Key ''data''] = Some (JArr items)
             \<and> (\<forall>j. int (length items) \<le> j \<longrightarrow>
                    DataGroup_getitem (DataGroup ?g1) j = Inl IndexError)
             \<and> (\<forall>k. 1 \<le> k \<and> k \<le> int (length items) \<longrightarrow>
                    DataGroup_getitem (DataGroup ?g1) (- k)
                      = Inr (DataItem (rev items ! (nat k - 1))))"
    by (simp add: gs')
  then have o1: "\<forall>j. int (length [?a, ?b]) \<le> j \<longrightarrow>
                    DataGroup_getitem (DataGroup ?g1) j = Inl IndexError"
    and n1: "\<forall>k. 1 \<le> k \<and> k \<le> int (length [?a, ?b]) \<longrightarrow>
                    DataGroup_getitem (DataGroup ?g1) (- k)
                      = Inr (DataItem (rev [?a, ?b] ! (nat k - 1)))"
    by auto
  from o1 have C: "DataGroup_getitem (DataGroup ?g1) 2 = Inl IndexError" by simp
  from n1 [rule_format, of 2] have D: "DataGroup_getitem (DataGroup ?g1) (- 2) = Inr (DataItem ?a)"
    by simp
  from A B C D show ?thesis by (intro conjI)
qed

section \<open>Traversal and unvalidated fragments\<close>

lemma consume_drop:
  "consume it = map (mo_fun it) (drop (mo_pos it) (mo_seq it))"
proof (induction it rule: consume.induct)
  case (1 it)
  show ?case
  proof (cases "mo_pos it < length (mo_seq it)")
    case True
    let ?it' = "it\<lparr>mo_pos := mo_pos it + 1\<rparr>"
    from True have n: "py_next it = (Some (mo_fun it (mo_seq it ! mo_pos it)), ?it')"
      by (simp add: py_next_def)
    from 1 [OF n [symmetric] refl] have "consume ?it' = map (mo_fun it) (drop (Suc (mo_pos it)) (mo_seq it))"
      by simp
    moreover from n have "consume it = mo_fun it (mo_seq it ! mo_pos it) # consume ?it'"
      by (subst consume.simps) simp
    moreover from True have "drop (mo_pos it) (mo_seq it)
        = mo_seq it ! mo_pos it # drop (Suc (mo_pos it)) (mo_seq it)"
      by (simp add: Cons_nth_drop_Suc)
    ultimately show ?thesis by simp
  next
    case False
    then have "py_next it = (None, it)" by (simp add: py_next_def)
    then have "consume it = []" by (subst consume.simps) simp
    with False show ?thesis by simp
  qed
qed

lemma advance_state:
  "mo_seq (advance n it) = mo_seq it \<and> mo_fun (advance n it) = mo_fun it
   \<and> (mo_pos it \<le> length (mo_seq it) \<longrightarrow>
        mo_pos (advance n it) = min (mo_pos it + n) (length (mo_seq it)))"
proof (induction n arbitrary: it)
  case 0
  show ?case by simp
next
  case (Suc n)
  show ?case
  proof (cases "mo_pos it < length (mo_seq it)")
    case True
    then have "snd (py_next it) = it\<lparr>mo_pos := mo_pos it + 1\<rparr>"
      by (simp add: py_next_def)
    with Suc [of "it\<lparr>mo_pos := mo_pos it + 1\<rparr>"] True show ?thesis
      by (simp add: min_def)
  next
    case False
    then have "snd (py_next it) = it" by (simp add: py_next_def)
    with Suc [of it] False show ?thesis by (simp add: min_def)
  qed
qed

lemma fresh_traversal:
  assumes "py_map f (JArr xs) = Inr it"
  shows "mo_pos it = 0 \<and> consume it = map f xs
       \<and> (\<forall>n. mo_seq (advance n it) = xs \<and> consume (advance n it) = drop n (map f xs))"
proof -
  from assms have it: "it = \<lparr>mo_fun = f, mo_seq = xs, mo_pos = 0\<rparr>"
    by (simp add: py_map_def)
  have "consume (advance n it) = drop n (map f xs)" for n
  proof -
    from advance_state [of n it] it have
      "mo_seq (advance n it) = xs" "mo_fun (advance n it) = f"
      "mo_pos (advance n it) = min n (length xs)"
      by simp_all
    then have "consume (advance n it) = map f (drop (min n (length xs)) xs)"
      by (simp add: consume_drop)
    also have "\<dots> = drop n (map f xs)"
      by (simp add: drop_map min_def)
    finally show ?thesis .
  qed
  moreover have "mo_seq (advance n it) = xs" for n
    using advance_state [of n it] it by simp
  moreover have "consume it = map f xs"
    by (simp add: consume_drop it)
  ultimately show ?thesis using it by simp
qed

text \<open>
  C6. Traversal is restartable and does not consume. On a constructed Data each request
  for an iterator gives a fresh one at position 0 that yields one DataGroup per element
  of the document, in order, and then stops. Calling \<^verbatim>\<open>next\<close> on it \<open>n\<close> times moves only
  that iterator (what it has left is the sequence without its first \<open>n\<close> elements) and
  leaves the sequence it walks as it was, so an iterator requested afterwards yields the
  whole sequence again. The same holds for every group and its items.
\<close>

theorem traversal_restartable:
  assumes "Data_init (jsonschema_validate msg) d = Inr self"
  shows "\<exists>gs it. d = JArr gs \<and> Data_iter self = Inr it
      \<and> mo_pos it = 0
      \<and> consume it = map DataGroup gs
      \<and> (\<forall>n. mo_seq (advance n it) = gs
             \<and> consume (advance n it) = drop n (map DataGroup gs))
      \<and> (\<forall>g \<in> set gs. \<exists>items git.
             resolve g [Key ''data''] = Some (JArr items)
           \<and> DataGroup_iter (DataGroup g) = Inr git
           \<and> mo_pos git = 0
           \<and> consume git = map DataItem items
           \<and> (\<forall>n. mo_seq (advance n git) = items
                  \<and> consume (advance n git) = drop n (map DataItem items)))"
proof -
  from assms have self: "self = Data d" and "jsonschema_validate msg d data_schema = None"
    by (auto simp: Data_init_def parse_json_def split: option.splits sum.splits)
  then have "iter_errors data_schema d = []"
    by (simp add: validate_None_iff)
  then obtain gs where d: "d = JArr gs"
    and ok: "\<forall>g \<in> set gs. iter_errors group_schema g = []"
    by (rule data_shape)
  define it :: "DataGroup map_object"
    where "it = \<lparr>mo_fun = (\<lambda>item. DataGroup item), mo_seq = gs, mo_pos = 0\<rparr>"
  have m: "py_map (\<lambda>item. DataGroup item) (JArr gs) = Inr it"
    by (simp add: py_map_def it_def)
  then have i: "Data_iter self = Inr it"
    by (simp add: Data_iter_def self d)
  note top = fresh_traversal [OF m]
  have grp: "\<forall>g \<in> set gs. \<exists>items git.
             resolve g [Key ''data''] = Some (JArr items)
           \<and> DataGroup_iter (DataGroup g) = Inr git
           \<and> mo_pos git = 0
           \<and> consume git = map DataItem items
           \<and> (\<forall>n. mo_seq (advance n git) = items
                  \<and> consume (advance n git) = drop n (map DataItem items))"
  proof
    fix g assume "g \<in> set gs"
    with ok have "iter_errors group_schema g = []" by blast
    then obtain kvs items where g: "g = JObj kvs" "map_of kvs ''data'' = Some (JArr items)"
      by (rule group_shape)
    define git :: "DataItem map_object"
      where "git = \<lparr>mo_fun = (\<lambda>item. DataItem item), mo_seq = items, mo_pos = 0\<rparr>"
    have gm: "py_map (\<lambda>item. DataItem item) (JArr items) = Inr git"
      by (simp add: py_map_def git_def)
    with g have "DataGroup_iter (DataGroup g) = Inr git"
      by (simp add: DataGroup_iter_def)
    moreover from g have "resolve g [Key ''data''] = Some (JArr items)" by simp
    ultimately show "\<exists>items git.
             resolve g [Key ''data''] = Some (JArr items)
           \<and> DataGroup_iter (DataGroup g) = Inr git
           \<and> mo_pos git = 0
           \<and> consume git = map DataItem items
           \<and> (\<forall>n. mo_seq (advance n git) = items
                  \<and> consume (advance n git) = drop n (map DataItem items))"
      using fresh_traversal [OF gm] by blast
  qed
  from d i top grp show ?thesis by blast
qed


theorem traversal_restartable_witness:
  "\<exists>it. Data_iter (Data (JArr
      [JObj [(''name'', JStr ''g1''), (''data'', JArr [JObj [(''name'', JStr ''a''), (''value'', JStr ''1'')]])],
       JObj [(''name'', JStr ''g2''), (''data'', JArr [JObj [(''name'', JStr ''b''), (''value'', JStr ''2'')]])]]))
       = Inr it
    \<and> map DataGroup_name (consume it) = [Inr (JStr ''g1''), Inr (JStr ''g2'')]
    \<and> map DataGroup_name (consume (advance 1 it)) = [Inr (JStr ''g2'')]
    \<and> mo_seq (advance 1 it) =
      [JObj [(''name'', JStr ''g1''), (''data'', JArr [JObj [(''name'', JStr ''a''), (''value'', JStr ''1'')]])],
       JObj [(''name'', JStr ''g2''), (''data'', JArr [JObj [(''name'', JStr ''b''), (''value'', JStr ''2'')]])]]"
proof -
  let ?g1 = "JObj [(''name'', JStr ''g1''), (''data'', JArr [JObj [(''name'', JStr ''a''), (''value'', JStr ''1'')]])]"
  let ?g2 = "JObj [(''name'', JStr ''g2''), (''data'', JArr [JObj [(''name'', JStr ''b''), (''value'', JStr ''2'')]])]"
  let ?d = "JArr [?g1, ?g2]"
  have c: "Data_init (jsonschema_validate violated_keyword) ?d = Inr (Data ?d)" by code_simp
  from traversal_restartable [OF c] obtain gs it where gs: "?d = JArr gs"
    and it: "Data_iter (Data ?d) = Inr it"
    and all: "consume it = map DataGroup gs"
    and part: "\<forall>n. mo_seq (advance n it) = gs
             \<and> consume (advance n it) = drop n (map DataGroup gs)"
    by blast
  from gs have gs': "gs = [?g1, ?g2]" by simp
  from all have 1: "map DataGroup_name (consume it) = [Inr (JStr ''g1''), Inr (JStr ''g2'')]"
    by (simp add: gs' DataGroup_name_def)
  from part [rule_format, of 1]
  have 2: "map DataGroup_name (consume (advance 1 it)) = [Inr (JStr ''g2'')]"
   and 3: "mo_seq (advance 1 it) = [?g1, ?g2]"
    by (simp_all add: gs' DataGroup_name_def)
  from it 1 2 3 show ?thesis by (intro exI [of _ it] conjI)
qed

text \<open>
  DataGroup and DataItem are constructed from any value without a check. When the
  dictionary lacks a key, the operation that reads that key raises KeyError for
  it: \<open>name\<close> on both, \<open>value\<close> on a DataItem, indexed access and iteration (which read
  \<open>data\<close>) on a DataGroup.
\<close>

theorem fragments_not_validated:
  "DataGroup_init d = Inr (DataGroup d)
 \<and> DataItem_init d = Inr (DataItem d)
 \<and> (''name'' \<notin> fst ` set kvs \<longrightarrow>
        DataGroup_name (DataGroup (JObj kvs)) = Inl (KeyError (JStr ''name''))
      \<and> DataItem_name (DataItem (JObj kvs)) = Inl (KeyError (JStr ''name'')))
 \<and> (''value'' \<notin> fst ` set kvs \<longrightarrow>
        DataItem_value (DataItem (JObj kvs)) = Inl (KeyError (JStr ''value'')))
 \<and> (''data'' \<notin> fst ` set kvs \<longrightarrow>
        (\<forall>index. DataGroup_getitem (DataGroup (JObj kvs)) index = Inl (KeyError (JStr ''data'')))
      \<and> DataGroup_iter (DataGroup (JObj kvs)) = Inl (KeyError (JStr ''data'')))"
  by (simp add: DataGroup_init_def DataItem_init_def DataGroup_name_def DataItem_name_def
        DataItem_value_def DataGroup_getitem_def DataGroup_iter_def map_of_None_iff [symmetric]
      del: map_of_eq_None_iff)

theorem fragments_not_validated_witness:
  "DataGroup_init (JObj [(''title'', JStr ''g1'')]) = Inr (DataGroup (JObj [(''title'', JStr ''g1'')]))
 \<and> DataItem_init (JObj [(''title'', JStr ''g1'')]) = Inr (DataItem (JObj [(''title'', JStr ''g1'')]))
 \<and> DataGroup_name (DataGroup (JObj [(''title'', JStr ''g1'')])) = Inl (KeyError (JStr ''name''))
 \<and> DataItem_name (DataItem (JObj [(''title'', JStr ''g1'')])) = Inl (KeyError (JStr ''name''))
 \<and> DataItem_value (DataItem (JObj [(''title'', JStr ''g1'')])) = Inl (KeyError (JStr ''value''))
 \<and> DataGroup_getitem (DataGroup (JObj [(''title'', JStr ''g1'')])) 0 = Inl (KeyError (JStr ''data''))
 \<and> DataGroup_iter (DataGroup (JObj [(''title'', JStr ''g1'')])) = Inl (KeyError (JStr ''data''))"
proof -
  have "''name'' \<notin> fst ` set [(''title'', JStr ''g1'')]"
       "''value'' \<notin> fst ` set [(''title'', JStr ''g1'')]"
       "''data'' \<notin> fst ` set [(''title'', JStr ''g1'')]"
    by simp_all
  with fragments_not_validated [of "JObj [(''title'', JStr ''g1'')]" "[(''title'', JStr ''g1'')]"]
  show ?thesis by blast
qed

text \<open>
  C9. The constructors validate nothing, so a DataGroup can be built from the dictionary
  \<^verbatim>\<open>{'name': 'g1'}\<close>, which lacks \<open>data\<close>. On it indexed access and iteration read the
  missing key and raise KeyError for \<open>data\<close>; the length does not: \<^verbatim>\<open>__len__\<close> is
  \<^verbatim>\<open>len(self.__data)\<close>, reads no key, and returns the number of keys of the dictionary, 1.
\<close>

theorem group_len_no_key_error:
  "DataGroup_init (JObj [(''name'', JStr ''g1'')]) = Inr (DataGroup (JObj [(''name'', JStr ''g1'')]))
 \<and> DataGroup_getitem (DataGroup (JObj [(''name'', JStr ''g1'')])) 0 = Inl (KeyError (JStr ''data''))
 \<and> DataGroup_iter (DataGroup (JObj [(''name'', JStr ''g1'')])) = Inl (KeyError (JStr ''data''))
 \<and> DataGroup_len (DataGroup (JObj [(''name'', JStr ''g1'')])) = Inr 1
 \<and> DataGroup_len (DataGroup (JObj [(''name'', JStr ''g1'')])) \<noteq> Inl (KeyError (JStr ''data''))"
  by (simp add: DataGroup_init_def DataGroup_getitem_def DataGroup_iter_def DataGroup_len_def)

end
